theory Spec2Isabelle
  imports Complex_Main "HOL-Library.Word" "HOL-Library.Log_Nat"
begin

section \<open>Python values the report generator handles\<close>

text \<open>
  A Python \<open>str\<close> is a sequence of Unicode code points, a \<open>bytes\<close> object a sequence
  of octets. File names are kept as plain strings. \<open>lit\<close> turns a literal of the source
  into a \<open>str\<close>.
\<close>

type_synonym byte = "8 word"
type_synonym pystr = "nat list"

definition lit :: "string \<Rightarrow> pystr" where
  "lit s = map of_char s"

definition newline :: pystr where
  "newline = [10]"

text \<open>The exceptions that can end a run. Library calls may return any of them.\<close>

datatype error =
    ZeroDivisionError
  | UnicodeDecodeError
  | UnicodeEncodeError
  | AttributeError
  | FileNotFoundError
  | NotADirectoryError
  | PermissionError
  | UnidentifiedImageError
  | OSError
  | ValueError
  | CalledProcessError

text \<open>
  What \<open>exifdata.get\<close> can hand back: a \<open>bytes\<close> object, or something that is not
  \<open>bytes\<close>. The latter is what ends up as a caption: a \<open>str\<close>, or any other object
  (a number, a tuple), which the model represents by the text \<open>str()\<close> gives for it,
  the only thing the program ever does with it.
\<close>

datatype caption = Text pystr | Object pystr

datatype exif_value = Bytes "byte list" | NonBytes caption

fun py_format :: "caption \<Rightarrow> pystr" where
  "py_format (Text s) = s"
| "py_format (Object r) = r"

fun format_opt :: "pystr option \<Rightarrow> pystr" where
  "format_opt None = lit ''None''"
| "format_opt (Some s) = s"

subsection \<open>\<open>str(n)\<close> for a natural number\<close>

definition digit :: "nat \<Rightarrow> char" where
  "digit d = ''0123456789'' ! d"

function decimal :: "nat \<Rightarrow> string" where
  "decimal n = (if n < 10 then [digit n] else decimal (n div 10) @ [digit (n mod 10)])"
  by pat_completeness auto
termination
  by (relation "measure id") auto

subsection \<open>\<open>bytes.decode()\<close>: strict UTF-8\<close>

definition cont :: "byte \<Rightarrow> bool" where
  "cont b = (0x80 \<le> b \<and> b \<le> 0xBF)"

definition low6 :: "byte \<Rightarrow> nat" where
  "low6 b = unat b mod 64"

fun decode_utf8 :: "byte list \<Rightarrow> error + pystr" where
  "decode_utf8 [] = Inr []"
| "decode_utf8 (b0 # bs) =
     (if b0 < 0x80 then
        (case decode_utf8 bs of Inl e \<Rightarrow> Inl e | Inr s \<Rightarrow> Inr (unat b0 # s))
      else if 0xC2 \<le> b0 \<and> b0 \<le> 0xDF then
        (case bs of
           b1 # r \<Rightarrow>
             if cont b1 then
               (case decode_utf8 r of
                  Inl e \<Rightarrow> Inl e
                | Inr s \<Rightarrow> Inr ((unat b0 mod 32 * 64 + low6 b1) # s))
             else Inl UnicodeDecodeError
         | _ \<Rightarrow> Inl UnicodeDecodeError)
      else if 0xE0 \<le> b0 \<and> b0 \<le> 0xEF then
        (case bs of
           b1 # b2 # r \<Rightarrow>
             if cont b1 \<and> cont b2 \<and> (b0 \<noteq> 0xE0 \<or> 0xA0 \<le> b1) \<and> (b0 \<noteq> 0xED \<or> b1 \<le> 0x9F) then
               (case decode_utf8 r of
                  Inl e \<Rightarrow> Inl e
                | Inr s \<Rightarrow> Inr (((unat b0 mod 16 * 64 + low6 b1) * 64 + low6 b2) # s))
             else Inl UnicodeDecodeError
         | _ \<Rightarrow> Inl UnicodeDecodeError)
      else if 0xF0 \<le> b0 \<and> b0 \<le> 0xF4 then
        (case bs of
           b1 # b2 # b3 # r \<Rightarrow>
             if cont b1 \<and> cont b2 \<and> cont b3
                \<and> (b0 \<noteq> 0xF0 \<or> 0x90 \<le> b1) \<and> (b0 \<noteq> 0xF4 \<or> b1 \<le> 0x8F) then
               (case decode_utf8 r of
                  Inl e \<Rightarrow> Inl e
                | Inr s \<Rightarrow>
                    Inr ((((unat b0 mod 8 * 64 + low6 b1) * 64 + low6 b2) * 64 + low6 b3) # s))
             else Inl UnicodeDecodeError
         | _ \<Rightarrow> Inl UnicodeDecodeError)
      else Inl UnicodeDecodeError)"

text \<open>\<open>comment.replace("\0", "")\<close>\<close>

definition strip_nul :: "pystr \<Rightarrow> pystr" where
  "strip_nul s = filter (\<lambda>c. c \<noteq> 0) s"

subsection \<open>\<open>base64.b64encode\<close> and its inverse\<close>

definition b64_alphabet :: string where
  "b64_alphabet = ''ABCDEFGHIJKLMNOPQRSTUVWXYZabcdefghijklmnopqrstuvwxyz0123456789+/''"

definition b64_char :: "nat \<Rightarrow> char" where
  "b64_char i = b64_alphabet ! i"

fun b64encode :: "byte list \<Rightarrow> string" where
  "b64encode [] = []"
| "b64encode [a] =
     (let n = unat a * 16
      in [b64_char (n div 64), b64_char (n mod 64), CHR ''='', CHR ''=''])"
| "b64encode [a, b] =
     (let n = (unat a * 256 + unat b) * 4
      in [b64_char (n div 4096), b64_char (n div 64 mod 64), b64_char (n mod 64), CHR ''=''])"
| "b64encode (a # b # c # rest) =
     (let n = (unat a * 256 + unat b) * 256 + unat c
      in [b64_char (n div 262144), b64_char (n div 4096 mod 64),
          b64_char (n div 64 mod 64), b64_char (n mod 64)] @ b64encode rest)"

fun index_of :: "'a \<Rightarrow> 'a list \<Rightarrow> nat option" where
  "index_of x [] = None"
| "index_of x (y # ys) = (if x = y then Some 0 else map_option Suc (index_of x ys))"

definition b64_index :: "char \<Rightarrow> nat option" where
  "b64_index c = index_of c b64_alphabet"

definition b64_group :: "char list \<Rightarrow> nat option" where
  "b64_group cs =
     fold (\<lambda>c acc. case (acc, b64_index c) of
                      (Some n, Some i) \<Rightarrow> Some (n * 64 + i)
                    | _ \<Rightarrow> None) cs (Some 0)"

fun b64decode :: "string \<Rightarrow> byte list option" where
  "b64decode [] = Some []"
| "b64decode (c0 # c1 # c2 # c3 # rest) =
     (if rest = [] \<and> c3 = CHR ''='' then
        (if c2 = CHR ''='' then
           map_option (\<lambda>n. [of_nat (n div 16)]) (b64_group [c0, c1])
         else
           map_option (\<lambda>n. [of_nat (n div 1024), of_nat (n div 4 mod 256)])
             (b64_group [c0, c1, c2]))
      else
        (case (b64_group [c0, c1, c2, c3], b64decode rest) of
           (Some n, Some bs) \<Rightarrow>
             Some (of_nat (n div 65536) # of_nat (n div 256 mod 256) # of_nat (n mod 256) # bs)
         | _ \<Rightarrow> None))"
| "b64decode _ = None"

section \<open>Python's float division\<close>

text \<open>
  \<open>x / y\<close> on Python numbers is IEEE 754 binary64 division: the exact quotient rounded
  to the nearest number with a 53-bit significand, ties to the even significand. The
  model keeps a float as the rational it denotes. The exponent range is left open:
  for image sizes below \<open>2 ^ 31\<close> every quotient of the program is far inside the
  normal range of binary64.

  \<open>binade q\<close> is the shift that brings \<open>q\<close> into \<open>[2 ^ 52, 2 ^ 53)\<close>.
\<close>

definition round_half_even :: "rat \<Rightarrow> int" where
  "round_half_even q =
     (let f = \<lfloor>q\<rfloor>; r = q - of_int f
      in if r < 1 / 2 then f else if 1 / 2 < r then f + 1 else if even f then f else f + 1)"

definition binade :: "rat \<Rightarrow> int" where
  "binade q =
     (let k0 = (if 1 \<le> q then 53 - bitlen \<lfloor>q\<rfloor> else 52 + bitlen \<lfloor>1 / q\<rfloor>)
      in if 2 ^ 53 \<le> q * 2 powi k0 then k0 - 1 else k0)"

definition fl :: "rat \<Rightarrow> rat" where
  "fl q =
     (if q = 0 then 0
      else let k = binade \<bar>q\<bar>
           in sgn q * of_int (round_half_even (\<bar>q\<bar> * 2 powi k)) * 2 powi (- k))"

definition py_truediv :: "rat \<Rightarrow> rat \<Rightarrow> error + rat" where
  "py_truediv x y = (if y = 0 then Inl ZeroDivisionError else Inr (fl (x / y)))"

text \<open>\<open>int(x)\<close> on a float truncates towards zero.\<close>

definition py_int :: "rat \<Rightarrow> int" where
  "py_int x = (if 0 \<le> x then \<lfloor>x\<rfloor> else \<lceil>x\<rceil>)"

section \<open>Images and the imaging library\<close>

text \<open>
  An image as the program sees it: its size, the tags \<open>getexif()\<close> returns, the
  pixel data, and the names of the further attributes the library keeps on the
  object. The imaging library itself is not part of the repository; its operations
  are parameters. Each may fail.
\<close>

record image =
  img_size :: "nat \<times> nat"
  img_exif :: "(nat \<times> exif_value) list"
  img_data :: "nat list"
  img_attrs :: "string list"

record pil =
  pil_open :: "string \<Rightarrow> error + image"
  pil_resize :: "image \<Rightarrow> int \<times> int \<Rightarrow> error + image"
  pil_exif_transpose :: "image \<Rightarrow> error + image"
  pil_save_jpeg :: "image \<Rightarrow> (error + byte list) \<times> image"

text \<open>
  \<open>image.save(buffer, format="JPEG")\<close> is a method call on the entry's image object:
  \<open>pil_save_jpeg\<close> returns the encoded bytes (or the error) together with the object
  as the call leaves it.
\<close>

section \<open>\<open>shrink_image\<close>\<close>

definition ideal_max_dimension :: nat where
  "ideal_max_dimension = 900"

definition scaled_size :: "nat \<times> nat \<Rightarrow> error + int \<times> int" where
  "scaled_size sz =
     (let (img_w, img_h) = sz;
          max_dim = max img_w img_h
      in case py_truediv (of_nat max_dim) (of_nat ideal_max_dimension) of
           Inl e \<Rightarrow> Inl e
         | Inr scale \<Rightarrow>
             (case py_truediv (of_nat img_w) scale of
                Inl e \<Rightarrow> Inl e
              | Inr fw \<Rightarrow>
                  (case py_truediv (of_nat img_h) scale of
                     Inl e \<Rightarrow> Inl e
                   | Inr fh \<Rightarrow> Inr (py_int fw, py_int fh))))"

definition shrink_image :: "pil \<Rightarrow> image \<Rightarrow> error + image" where
  "shrink_image L img =
     (case scaled_size (img_size img) of
        Inl e \<Rightarrow> Inl e
      | Inr scaled \<Rightarrow>
          (case pil_resize L img scaled of
             Inl e \<Rightarrow> Inl e
           | Inr sm_image \<Rightarrow> pil_exif_transpose L sm_image))"

section \<open>\<open>get_most_recent_photos\<close>\<close>

definition tag_id :: nat where
  "tag_id = 40092"

definition exif_get :: "(nat \<times> exif_value) list \<Rightarrow> nat \<Rightarrow> exif_value \<Rightarrow> exif_value" where
  "exif_get exifdata k dflt = (case map_of exifdata k of None \<Rightarrow> dflt | Some v \<Rightarrow> v)"

type_synonym entry = "string \<times> image \<times> caption"

fun yield :: "entry \<Rightarrow> error + entry list \<Rightarrow> error + entry list" where
  "yield x (Inl e) = Inl e"
| "yield x (Inr xs) = Inr (x # xs)"

fun photos_loop :: "pil \<Rightarrow> string list \<Rightarrow> error + entry list" where
  "photos_loop L [] = Inr []"
| "photos_loop L (photo_path # attachable_files) =
     (case pil_open L photo_path of
        Inl e \<Rightarrow> Inl e
      | Inr opened \<Rightarrow>
          (case shrink_image L opened of
             Inl e \<Rightarrow> Inl e
           | Inr img \<Rightarrow>
               (case exif_get (img_exif img) tag_id (Bytes []) of
                  Bytes b \<Rightarrow>
                    (case decode_utf8 b of
                       Inl e \<Rightarrow> Inl e
                     | Inr s \<Rightarrow>
                         (let comment = strip_nul s
                          in if comment = [] then photos_loop L attachable_files
                             else yield (photo_path, img, Text comment)
                                    (photos_loop L attachable_files)))
                | NonBytes comment \<Rightarrow>
                    yield (photo_path, img, comment) (photos_loop L attachable_files))))"

text \<open>
  The directory listing is the environment's: \<open>iterdir\<close> gives the entries of a
  directory in the order the file system lists them, or fails. Without
  \<open>--photo-path\<close> the argument is \<open>None\<close>, which has no \<open>iterdir\<close>.
\<close>

definition get_most_recent_photos ::
    "pil \<Rightarrow> (string \<Rightarrow> error + string list) \<Rightarrow> string option \<Rightarrow> error + entry list" where
  "get_most_recent_photos L iterdir photo_dir =
     (case photo_dir of
        None \<Rightarrow> Inl AttributeError
      | Some d \<Rightarrow>
          (case iterdir d of
             Inl e \<Rightarrow> Inl e
           | Inr attachable_files \<Rightarrow> photos_loop L attachable_files))"

section \<open>\<open>render_report_data\<close>\<close>

datatype month =
  January | February | March | April | May | June | July | August | September
  | October | November | December

record date =
  year :: nat
  month :: month
  day :: nat

fun month_name :: "month \<Rightarrow> string" where
  "month_name January = ''January''"
| "month_name February = ''February''"
| "month_name March = ''March''"
| "month_name April = ''April''"
| "month_name May = ''May''"
| "month_name June = ''June''"
| "month_name July = ''July''"
| "month_name August = ''August''"
| "month_name September = ''September''"
| "month_name October = ''October''"
| "month_name November = ''November''"
| "month_name December = ''December''"

text \<open>
  \<open>strftime("%B %-d, %Y")\<close> in the C locale (the program never sets another): the full
  month name, the day of the month without padding (the \<open>-\<close> flag of the C library),
  the year in decimal.
\<close>

definition strftime :: "date \<Rightarrow> pystr" where
  "strftime d = lit (month_name (month d) @ '' '' @ decimal (day d) @ '', '' @ decimal (year d))"

record report_data =
  effective_date :: date
  property_address :: "pystr option"
  author :: "pystr option"
  photo_list :: "entry list"

fun join :: "'a list \<Rightarrow> 'a list list \<Rightarrow> 'a list" where
  "join sep [] = []"
| "join sep [x] = x"
| "join sep (x # y # ys) = x @ sep @ join sep (y # ys)"

definition heading :: "nat \<Rightarrow> caption \<Rightarrow> pystr" where
  "heading i comment = lit ''#### '' @ lit (decimal (i + 1)) @ lit ''. '' @ py_format comment"

definition image_ref :: "byte list \<Rightarrow> pystr" where
  "image_ref buffer =
     (let img_str = lit (b64encode buffer);
          embedded_img = lit ''data:image/jpeg;base64,'' @ img_str
      in lit ''![]('' @ embedded_img @ lit ''){width=90%}'')"

fun render_entries ::
    "pil \<Rightarrow> nat \<Rightarrow> entry list \<Rightarrow> pystr list \<Rightarrow> (error + pystr list) \<times> entry list" where
  "render_entries L i [] lines = (Inr lines, [])"
| "render_entries L i ((photo_path, img, comment) # rest) lines =
     (case pil_save_jpeg L img of
        (Inl e, img') \<Rightarrow> (Inl e, (photo_path, img', comment) # rest)
      | (Inr buffer, img') \<Rightarrow>
          (case render_entries L (i + 1) rest
                  (lines @ [heading i comment, image_ref buffer, newline]) of
             (r, rest') \<Rightarrow> (r, (photo_path, img', comment) # rest')))"

definition title_line :: "pystr option \<Rightarrow> pystr" where
  "title_line address =
     lit (''% Home Owner'' @ [CHR 0x27] @ ''s Report for '') @ format_opt address"

definition render_report_data ::
    "pil \<Rightarrow> 'a report_data_scheme \<Rightarrow> (error + pystr) \<times> 'a report_data_scheme" where
  "render_report_data L rd =
     (let formatted_date = strftime (effective_date rd);
          lines = [title_line (property_address rd),
                   lit ''% '' @ format_opt (author rd),
                   lit ''% '' @ formatted_date]
      in case render_entries L 0 (photo_list rd) lines of
           (Inl e, photos) \<Rightarrow> (Inl e, rd\<lparr>photo_list := photos\<rparr>)
         | (Inr lines', photos) \<Rightarrow> (Inr (join newline lines'), rd\<lparr>photo_list := photos\<rparr>))"

text \<open>
  Three notions for stating what the renderer emits: the bytes the encoder returns
  for an image (when it returns any), the three items the loop appends for the entry
  at position \<open>i\<close>, and the whole list \<open>lines\<close> as it stands when the loop ends.
\<close>

definition saved_jpeg :: "pil \<Rightarrow> image \<Rightarrow> byte list" where
  "saved_jpeg L img = (case fst (pil_save_jpeg L img) of Inr buffer \<Rightarrow> buffer | Inl e \<Rightarrow> [])"

fun entry_lines :: "pil \<Rightarrow> nat \<times> entry \<Rightarrow> pystr list" where
  "entry_lines L (i, photo_path, img, comment) =
     [heading i comment, image_ref (saved_jpeg L img), newline]"

definition report_lines :: "pil \<Rightarrow> 'a report_data_scheme \<Rightarrow> pystr list" where
  "report_lines L rd =
     [title_line (property_address rd),
      lit ''% '' @ format_opt (author rd),
      lit ''% '' @ strftime (effective_date rd)]
     @ concat (map (entry_lines L) (enumerate 0 (photo_list rd)))"

text \<open>
  The physical lines of a text, as \<open>str.split(sep)\<close> with a one-character separator
  gives them.
\<close>

fun split_on :: "'a \<Rightarrow> 'a list \<Rightarrow> 'a list list" where
  "split_on sep [] = [[]]"
| "split_on sep (x # xs) =
     (if x = sep then [] # split_on sep xs
      else (case split_on sep xs of
              [] \<Rightarrow> [[x]]
            | l # ls \<Rightarrow> (x # l) # ls))"

section \<open>\<open>main\<close>: the environment and the run\<close>

text \<open>
  The environment of a run: the directory listings, the text files, which paths
  cannot be opened for writing, which texts cannot be printed to which file (the
  text has a character the file's encoding lacks, the disk is full), the subprocess
  runner and the clock. \<open>trace\<close> is a history of the effects in the order they happen:
  \<open>Truncate p\<close> when \<open>p\<close> is opened for writing, \<open>Write p s\<close> when the \<open>with\<close> block of \<open>p\<close> ends
  after a \<open>print\<close>, leaving \<open>s\<close> in the file, and \<open>Run cmd inp\<close> when the subprocess is
  started.
\<close>

datatype event =
    Truncate string
  | Write string pystr
  | Run "string list" pystr

record world =
  iterdir :: "string \<Rightarrow> error + string list"
  files :: "string \<rightharpoonup> pystr"
  open_fails :: "string \<Rightarrow> error option"
  print_fails :: "string \<Rightarrow> pystr \<Rightarrow> (error \<times> pystr) option"
  check_output :: "string list \<Rightarrow> pystr \<Rightarrow> error + pystr"
  today :: date
  trace :: "event list"

record args =
  arg_author :: "pystr option"
  arg_property_address :: "pystr option"
  arg_photo_path :: "string option"

text \<open>\<open>path.open("w")\<close>: creates the file or empties it, unless opening fails.\<close>

definition open_w :: "world \<Rightarrow> string \<Rightarrow> error + world" where
  "open_w w p =
     (case open_fails w p of
        Some e \<Rightarrow> Inl e
      | None \<Rightarrow> Inr (w\<lparr>files := (files w)(p \<mapsto> []), trace := trace w @ [Truncate p]\<rparr>))"

text \<open>
  \<open>print(text, file=f)\<close> followed by the close of the \<open>with\<close> block. When the write or the
  close raises, the block still ends: the file is left with what reached it and the
  error goes on.
\<close>

definition print_to :: "world \<Rightarrow> string \<Rightarrow> pystr \<Rightarrow> error option \<times> world" where
  "print_to w p s =
     (case print_fails w p s of
        Some (e, left) \<Rightarrow>
          (Some e, w\<lparr>files := (files w)(p \<mapsto> left), trace := trace w @ [Write p left]\<rparr>)
      | None \<Rightarrow>
          (None, w\<lparr>files := (files w)(p \<mapsto> s @ newline),
                    trace := trace w @ [Write p (s @ newline)]\<rparr>))"

definition pandoc_args :: "string list" where
  "pandoc_args =
     [''pandoc'', ''--table-of-contents'', ''--toc-depth=6'', ''--from=markdown'',
      ''--to=html5'', ''--include-in-header=style.css'']"

definition markdown_to_html :: "world \<Rightarrow> pystr \<Rightarrow> (error + pystr) \<times> world" where
  "markdown_to_html w markdown_input =
     (check_output w pandoc_args markdown_input,
      w\<lparr>trace := trace w @ [Run pandoc_args markdown_input]\<rparr>)"

text \<open>
  \<open>suffix\<close> and \<open>with_suffix\<close> of \<open>pathlib\<close> on a path that is one file name with no
  directory part. The suffix starts at the last dot of the name, unless that dot is
  the first or the last character: then there is none, and the new suffix is
  appended.
\<close>

definition rfind :: "char \<Rightarrow> string \<Rightarrow> nat option" where
  "rfind c name =
     (case index_of c (rev name) of
        None \<Rightarrow> None
      | Some j \<Rightarrow> Some (length name - 1 - j))"

definition suffix_of :: "string \<Rightarrow> string" where
  "suffix_of name =
     (case rfind CHR ''.'' name of
        None \<Rightarrow> []
      | Some i \<Rightarrow> if 0 < i \<and> i < length name - 1 then drop i name else [])"

definition with_suffix :: "string \<Rightarrow> string \<Rightarrow> error + string" where
  "with_suffix name suffix =
     (if CHR ''/'' \<in> set suffix then Inl ValueError
      else if (suffix \<noteq> [] \<and> hd suffix \<noteq> CHR ''.'') \<or> suffix = ''.'' then Inl ValueError
      else if name = [] then Inl ValueError
      else let old_suffix = suffix_of name
           in Inr (take (length name - length old_suffix) name @ suffix))"

definition report_filepath :: string where
  "report_filepath = ''report.md''"

definition main :: "pil \<Rightarrow> args \<Rightarrow> world \<Rightarrow> error option \<times> world" where
  "main L a w =
     (case get_most_recent_photos L (iterdir w) (arg_photo_path a) of
        Inl e \<Rightarrow> (Some e, w)
      | Inr most_recent_photos \<Rightarrow>
          (let rd = \<lparr>effective_date = today w,
                     property_address = arg_property_address a,
                     author = arg_author a,
                     photo_list = most_recent_photos\<rparr>
           in case fst (render_report_data L rd) of
                Inl e \<Rightarrow> (Some e, w)
              | Inr markdown_input \<Rightarrow>
                  (case open_w w report_filepath of
                     Inl e \<Rightarrow> (Some e, w)
                   | Inr w1 \<Rightarrow>
                       (case print_to w1 report_filepath markdown_input of
                          (Some e, w2) \<Rightarrow> (Some e, w2)
                        | (None, w2) \<Rightarrow>
                            (case with_suffix report_filepath ''.html'' of
                               Inl e \<Rightarrow> (Some e, w2)
                             | Inr html_filepath \<Rightarrow>
                                 (case open_w w2 html_filepath of
                                    Inl e \<Rightarrow> (Some e, w2)
                                  | Inr w3 \<Rightarrow>
                                      (case markdown_to_html w3 markdown_input of
                                         (Inl e, w4) \<Rightarrow> (Some e, w4)
                                       | (Inr html, w4) \<Rightarrow>
                                           print_to w4 html_filepath html)))))))"

section \<open>Example inputs\<close>

text \<open>
  A small imaging library and environment on which the theorems below are run: two
  photographs, one with a comment stored as UTF-16 bytes and one without (and two
  more, one whose comment is an empty \<open>str\<close> and one whose bytes are no UTF-8), a resize
  that keeps the tags, and an encoder that writes the size into its output (and, as
  JPEG does, refuses sides of 65536 and more).
\<close>

definition photo_a :: image where
  "photo_a = \<lparr>img_size = (900, 450),
              img_exif = [(274, NonBytes (Object (lit ''1''))),
                          (40092, Bytes [0x48, 0x00, 0x69, 0x00, 0x00, 0x00])],
              img_data = [1, 2, 3], img_attrs = []\<rparr>"

definition photo_b :: image where
  "photo_b = \<lparr>img_size = (900, 450), img_exif = [], img_data = [4, 5, 6],
              img_attrs = []\<rparr>"

definition photo_c :: image where
  "photo_c = \<lparr>img_size = (900, 450), img_exif = [(40092, NonBytes (Text []))],
              img_data = [7, 8, 9], img_attrs = []\<rparr>"

definition photo_d :: image where
  "photo_d = \<lparr>img_size = (900, 450), img_exif = [(40092, Bytes [0xFF])],
              img_data = [10, 11, 12], img_attrs = []\<rparr>"

definition toy_jpeg :: "image \<Rightarrow> byte list" where
  "toy_jpeg img = [0xFF, 0xD8, of_nat (fst (img_size img) div 256), of_nat (fst (img_size img)),
                   of_nat (snd (img_size img) div 256), of_nat (snd (img_size img))]"

definition toy_pil :: pil where
  "toy_pil = \<lparr>pil_open = (\<lambda>p. if p = ''a.jpg'' then Inr photo_a
                              else if p = ''b.jpg'' then Inr photo_b
                              else if p = ''c.jpg'' then Inr photo_c
                              else if p = ''d.jpg'' then Inr photo_d
                              else Inl UnidentifiedImageError),
              pil_resize = (\<lambda>img sz. Inr (img\<lparr>img_size := (nat (fst sz), nat (snd sz))\<rparr>)),
              pil_exif_transpose = Inr,
              pil_save_jpeg =
                (\<lambda>img. if fst (img_size img) < 65536 \<and> snd (img_size img) < 65536
                       then (Inr (toy_jpeg img), img) else (Inl ValueError, img))\<rparr>"


definition toy_report :: report_data where
  "toy_report =
     \<lparr>effective_date = \<lparr>year = 2024, month = March, day = 4\<rparr>,
      property_address = Some (lit ''123 Main St''),
      author = Some (lit ''J. Smith''),
      photo_list = [(''a.jpg'', photo_a, Text (lit ''Cracked tile'')),
                    (''c.jpg'', photo_b, Text (lit ''Loose railing''))]\<rparr>"

text \<open>
  A report whose only caption has a line feed in it, and one whose address has: both
  are values the program can receive, from the comment of a photograph and from the
  command line.
\<close>

definition line_feed_caption_report :: report_data where
  "line_feed_caption_report =
     toy_report\<lparr>photo_list :=
       [(''a.jpg'', photo_a, Text (map of_char (''a'' @ [CHR 0x0A] @ ''#### 7. fake'')))]\<rparr>"

definition two_line_address_report :: report_data where
  "two_line_address_report =
     toy_report\<lparr>property_address :=
                  Some (map of_char (''1 Main St'' @ [CHR 0x0A] @ ''#### Unit 2'')),
                photo_list := []\<rparr>"


definition toy_world :: world where
  "toy_world = \<lparr>iterdir = (\<lambda>d. if d = ''photos'' then Inr [''a.jpg'', ''b.jpg'']
                              else if d = ''empty'' then Inr []
                              else if d = ''typed'' then Inr [''c.jpg'']
                              else if d = ''broken'' then Inr [''d.jpg'']
                              else if d = ''mixed'' then Inr [''a.jpg'', ''d.jpg'']
                              else if d = ''all'' then Inr [''a.jpg'', ''b.jpg'', ''c.jpg'']
                              else Inl FileNotFoundError),
                files = Map.empty,
                open_fails = (\<lambda>p. None),
                print_fails = (\<lambda>p s. None),
                check_output = (\<lambda>cmd inp. Inl CalledProcessError),
                today = \<lparr>year = 2024, month = March, day = 4\<rparr>,
                trace = []\<rparr>"

definition toy_args :: "string \<Rightarrow> args" where
  "toy_args d = \<lparr>arg_author = Some (lit ''J. Smith''),
                 arg_property_address = Some (lit ''123 Main St''),
                 arg_photo_path = Some d\<rparr>"

section \<open>Base64: decoding inverts encoding\<close>

lemma index_of_nth:
  "distinct xs \<Longrightarrow> i < length xs \<Longrightarrow> index_of (xs ! i) xs = Some i"
proof (induction xs arbitrary: i)
  case Nil
  then show ?case by simp
next
  case (Cons y ys)
  show ?case
  proof (cases i)
    case 0
    then show ?thesis by simp
  next
    case (Suc j)
    with Cons.prems have "ys ! j \<in> set ys" "y \<notin> set ys" by auto
    then have "ys ! j \<noteq> y" by auto
    with Suc Cons show ?thesis by simp
  qed
qed

lemma b64_alphabet_distinct: "distinct b64_alphabet"
  by (simp add: b64_alphabet_def)

lemma b64_alphabet_length: "length b64_alphabet = 64"
  by (simp add: b64_alphabet_def)

lemma b64_index_char: "i < 64 \<Longrightarrow> b64_index (b64_char i) = Some i"
  by (simp add: b64_index_def b64_char_def index_of_nth b64_alphabet_distinct b64_alphabet_length)

lemma b64_char_not_pad: "i < 64 \<Longrightarrow> b64_char i \<noteq> CHR ''=''"
proof -
  assume "i < 64"
  then have "b64_char i \<in> set b64_alphabet"
    by (simp add: b64_char_def b64_alphabet_length)
  moreover have "CHR ''='' \<notin> set b64_alphabet"
    by (simp add: b64_alphabet_def)
  ultimately show ?thesis by auto
qed

lemma b64_group2:
  "i0 < 64 \<Longrightarrow> i1 < 64 \<Longrightarrow> b64_group [b64_char i0, b64_char i1] = Some (i0 * 64 + i1)"
  by (simp add: b64_group_def b64_index_char)

lemma b64_group3:
  "i0 < 64 \<Longrightarrow> i1 < 64 \<Longrightarrow> i2 < 64
   \<Longrightarrow> b64_group [b64_char i0, b64_char i1, b64_char i2] = Some ((i0 * 64 + i1) * 64 + i2)"
  by (simp add: b64_group_def b64_index_char)

lemma b64_group4:
  "i0 < 64 \<Longrightarrow> i1 < 64 \<Longrightarrow> i2 < 64 \<Longrightarrow> i3 < 64
   \<Longrightarrow> b64_group [b64_char i0, b64_char i1, b64_char i2, b64_char i3]
       = Some (((i0 * 64 + i1) * 64 + i2) * 64 + i3)"
  by (simp add: b64_group_def b64_index_char)

lemma byte_bound: "unat (a :: byte) < 256"
  using unsigned_less[of a, where 'a=nat] by simp

lemma b64_arith_one: "((x::nat) * 16 div 64 * 64 + x * 16 mod 64) div 16 = x"
proof -
  have "x * 16 div 64 * 64 + x * 16 mod 64 = x * 16" by (rule div_mult_mod_eq)
  then have "(x * 16 div 64 * 64 + x * 16 mod 64) div 16 = x * 16 div 16" by (simp only:)
  then show ?thesis by simp
qed

lemma b64_arith_two: fixes x y :: nat assumes "x < 256" "y < 256"
  shows "(x * 256 + y) * 4 div 1024 = x" "(x * 256 + y) * 4 div 4 mod 256 = y"
  using assms by simp_all

lemma b64_regroup3: fixes n :: nat
  shows "(n div 4096 * 64 + n div 64 mod 64) * 64 + n mod 64 = n"
proof -
  have "n div 4096 = n div 64 div 64" by (simp add: div_mult2_eq)
  then show ?thesis by simp
qed

lemma b64_regroup4: fixes n :: nat
  shows "((n div 262144 * 64 + n div 4096 mod 64) * 64 + n div 64 mod 64) * 64 + n mod 64 = n"
proof -
  have "n div 4096 = n div 64 div 64" by (simp add: div_mult2_eq)
  moreover have "n div 262144 = n div 64 div 64 div 64" by (simp add: div_mult2_eq)
  ultimately show ?thesis by simp
qed

lemma b64_arith_three: fixes x y z :: nat assumes "x < 256" "y < 256" "z < 256"
  shows "((x * 256 + y) * 256 + z) div 65536 = x"
    "((x * 256 + y) * 256 + z) div 256 mod 256 = y"
    "((x * 256 + y) * 256 + z) mod 256 = z"
proof -
  have d: "((x * 256 + y) * 256 + z) div 256 = x * 256 + y" using assms by simp
  have "((x * 256 + y) * 256 + z) div 65536 = ((x * 256 + y) * 256 + z) div 256 div 256"
    by (simp add: div_mult2_eq)
  then show "((x * 256 + y) * 256 + z) div 65536 = x" using assms d by simp
  show "((x * 256 + y) * 256 + z) div 256 mod 256 = y" using assms d by simp
  have "((x * 256 + y) * 256 + z) mod 256 = z mod 256" by (rule mod_mult_self3)
  then show "((x * 256 + y) * 256 + z) mod 256 = z" using assms by simp
qed

lemma b64_first_index4: fixes x y z :: nat assumes "x < 256" "y < 256" "z < 256"
  shows "((x * 256 + y) * 256 + z) div 262144 < 64"
proof -
  have "(x * 256 + y) * 256 + z < 16777216" using assms by simp
  then show ?thesis by simp
qed

lemma b64_first_index3: fixes x y :: nat assumes "x < 256" "y < 256"
  shows "(x * 256 + y) * 4 div 4096 < 64"
proof -
  have "(x * 256 + y) * 4 < 262144" using assms by simp
  then show ?thesis by simp
qed

lemma of_nat_unat_byte: "of_nat (unat (a::byte)) = a"
  by simp

lemma b64_one: "b64decode (b64encode [a]) = Some [a]"
proof -
  define x where "x = unat a"
  have i: "x * 16 div 64 < 64" "x * 16 mod 64 < 64"
    using byte_bound[of a] by (simp_all add: x_def)
  have e: "b64encode [a] = [b64_char (x * 16 div 64), b64_char (x * 16 mod 64), CHR ''='', CHR ''='']"
    by (simp add: x_def Let_def)
  have "b64decode [b64_char (x * 16 div 64), b64_char (x * 16 mod 64), CHR ''='', CHR ''='']
      = map_option (\<lambda>n. [of_nat (n div 16)]) (b64_group [b64_char (x * 16 div 64), b64_char (x * 16 mod 64)])"
    by simp
  also have "\<dots> = Some [of_nat ((x * 16 div 64 * 64 + x * 16 mod 64) div 16)]"
    by (simp only: b64_group2[OF i] option.map)
  also have "\<dots> = Some [a]"
    by (simp only: b64_arith_one x_def of_nat_unat_byte)
  finally show ?thesis by (simp only: e)
qed

lemma b64_two: "b64decode (b64encode [a, b]) = Some [a, b]"
proof -
  define x where "x = unat a"
  define y where "y = unat b"
  define n where "n = (x * 256 + y) * 4"
  have x: "x < 256" and y: "y < 256" unfolding x_def y_def by (rule byte_bound)+
  have i: "n div 4096 < 64" "n div 64 mod 64 < 64" "n mod 64 < 64"
    using b64_first_index3[OF x y] by (simp_all add: n_def)
  have np: "b64_char (n mod 64) \<noteq> CHR ''=''"
    by (rule b64_char_not_pad) simp
  have e: "b64encode [a, b] =
      [b64_char (n div 4096), b64_char (n div 64 mod 64), b64_char (n mod 64), CHR ''='']"
    by (simp add: x_def y_def n_def Let_def)
  have "b64decode [b64_char (n div 4096), b64_char (n div 64 mod 64), b64_char (n mod 64), CHR ''='']
      = map_option (\<lambda>n. [of_nat (n div 1024), of_nat (n div 4 mod 256)])
          (b64_group [b64_char (n div 4096), b64_char (n div 64 mod 64), b64_char (n mod 64)])"
    using np by simp
  also have "\<dots> = Some [of_nat (n div 1024), of_nat (n div 4 mod 256)]"
    by (simp only: b64_group3[OF i] option.map b64_regroup3)
  also have "\<dots> = Some [a, b]"
    unfolding n_def by (simp only: b64_arith_two[OF x y]) (simp add: x_def y_def)
  finally show ?thesis by (simp only: e)
qed

lemma b64_three:
  assumes "b64decode (b64encode rest) = Some rest"
  shows "b64decode (b64encode (a # b # c # rest)) = Some (a # b # c # rest)"
proof -
  define x where "x = unat a"
  define y where "y = unat b"
  define z where "z = unat c"
  define n where "n = (x * 256 + y) * 256 + z"
  have x: "x < 256" and y: "y < 256" and z: "z < 256"
    unfolding x_def y_def z_def by (rule byte_bound)+
  have i: "n div 262144 < 64" "n div 4096 mod 64 < 64" "n div 64 mod 64 < 64" "n mod 64 < 64"
    using b64_first_index4[OF x y z] by (simp_all add: n_def)
  have np: "b64_char (n mod 64) \<noteq> CHR ''=''"
    by (rule b64_char_not_pad) simp
  define cs where "cs = [b64_char (n div 262144), b64_char (n div 4096 mod 64),
          b64_char (n div 64 mod 64), b64_char (n mod 64)]"
  have e: "b64encode (a # b # c # rest) = cs @ b64encode rest"
    by (simp add: x_def y_def z_def n_def cs_def Let_def)
  have g: "b64_group cs = Some n"
    unfolding cs_def by (simp only: b64_group4[OF i] b64_regroup4)
  have "b64decode (cs @ b64encode rest)
      = (case (b64_group cs, b64decode (b64encode rest)) of
           (Some n, Some bs) \<Rightarrow>
             Some (of_nat (n div 65536) # of_nat (n div 256 mod 256) # of_nat (n mod 256) # bs)
         | _ \<Rightarrow> None)"
    using np by (simp add: cs_def)
  also have "\<dots> = Some (of_nat (n div 65536) # of_nat (n div 256 mod 256) # of_nat (n mod 256) # rest)"
    by (simp only: g assms prod.case option.case)
  also have "\<dots> = Some (a # b # c # rest)"
    unfolding n_def by (simp only: b64_arith_three[OF x y z]) (simp add: x_def y_def z_def)
  finally show ?thesis by (simp only: e)
qed

lemma b64_roundtrip: "b64decode (b64encode bs) = Some bs"
proof (induction bs rule: b64encode.induct)
  case 1
  then show ?case by simp
next
  case (2 a)
  then show ?case by (rule b64_one)
next
  case (3 a b)
  then show ?case by (rule b64_two)
next
  case (4 a b c rest)
  from 4[OF refl] show ?case by (rule b64_three)
qed

section \<open>Float division: the rounding error\<close>



















section \<open>The size \<open>shrink_image\<close> asks for\<close>














section \<open>The renderer's loop\<close>

lemma render_entries_Inr:
  "fst (render_entries L i ps lines) = Inr ls
   \<Longrightarrow> ls = lines @ concat (map (entry_lines L) (enumerate i ps))"
proof (induction ps arbitrary: i lines)
  case Nil
  then show ?case by simp
next
  case (Cons x ps)
  obtain p img c where x: "x = (p, img, c)" by (cases x) auto
  obtain r img' where sv: "pil_save_jpeg L img = (r, img')" by (cases "pil_save_jpeg L img")
  show ?case
  proof (cases r)
    case (Inl e)
    with Cons.prems x sv show ?thesis by simp
  next
    case (Inr buffer)
    with Cons.prems x sv
    have "fst (render_entries L (Suc i) ps (lines @ [heading i c, image_ref buffer, newline])) = Inr ls"
      by (simp add: case_prod_beta)
    from Cons.IH[OF this] Inr sv x show ?thesis
      by (simp add: saved_jpeg_def)
  qed
qed

lemma render_entries_unchanged:
  "(\<And>img. snd (pil_save_jpeg L img) = img) \<Longrightarrow> snd (render_entries L i ps lines) = ps"
proof (induction ps arbitrary: i lines)
  case Nil
  then show ?case by simp
next
  case (Cons x ps)
  obtain p img c where x: "x = (p, img, c)" by (cases x) auto
  obtain r img' where sv: "pil_save_jpeg L img = (r, img')" by (cases "pil_save_jpeg L img")
  have same: "img' = img" using Cons.prems[of img] sv by simp
  show ?case
  proof (cases r)
    case (Inl e)
    with x sv same show ?thesis by simp
  next
    case (Inr buffer)
    with x sv same Cons.IH[OF Cons.prems] show ?thesis
      by (simp add: case_prod_beta)
  qed
qed

lemma lit_heading_prefix: "take 5 (heading i c) = lit ''#### ''"
  by (simp add: heading_def lit_def)

lemma not_heading_image_ref: "take 5 (image_ref b) \<noteq> lit ''#### ''"
  by (simp add: image_ref_def lit_def)

lemma not_heading_newline: "take 5 newline \<noteq> lit ''#### ''"
  by (simp add: newline_def lit_def)

lemma not_heading_percent: "take 5 (lit ''% '' @ s) \<noteq> lit ''#### ''"
  by (simp add: lit_def)

lemma not_heading_title: "take 5 (title_line a) \<noteq> lit ''#### ''"
  by (simp add: title_line_def lit_def)

lemma filter_entry_lines:
  "filter (\<lambda>l. take 5 l = lit ''#### '') (concat (map (entry_lines L) (enumerate i ps)))
   = map (\<lambda>(j, p, img, c). heading j c) (enumerate i ps)"
proof (induction ps arbitrary: i)
  case Nil
  then show ?case by simp
next
  case (Cons x ps)
  obtain p img c where x: "x = (p, img, c)" by (cases x) auto
  show ?case
    using Cons.IH[of "Suc i"]
    by (simp add: x lit_heading_prefix not_heading_image_ref not_heading_newline)
qed

section \<open>What the renderer emits\<close>

declare decimal.simps [simp del]

lemma decimal_small: "n < 10 \<Longrightarrow> decimal n = [digit n]"
  by (simp add: decimal.simps)

lemma decimal_big: "10 \<le> n \<Longrightarrow> decimal n = decimal (n div 10) @ [digit (n mod 10)]"
  by (subst decimal.simps) simp

lemma decimal_nonempty: "decimal n \<noteq> []"
  by (subst decimal.simps) simp

lemma digit_nonzero: "0 < d \<Longrightarrow> d < 10 \<Longrightarrow> digit d \<noteq> CHR ''0''"
proof -
  assume "0 < d" "d < 10"
  then have "d = 1 \<or> d = 2 \<or> d = 3 \<or> d = 4 \<or> d = 5 \<or> d = 6 \<or> d = 7 \<or> d = 8 \<or> d = 9"
    by linarith
  then show ?thesis by (auto simp: digit_def)
qed

lemma decimal_no_leading_zero: "0 < n \<Longrightarrow> hd (decimal n) \<noteq> CHR ''0''"
proof (induction n rule: decimal.induct)
  case (1 n)
  show ?case
  proof (cases "n < 10")
    case True
    with 1 show ?thesis by (simp add: decimal_small digit_nonzero)
  next
    case False
    then have "0 < n div 10" by simp
    with 1 False have "hd (decimal (n div 10)) \<noteq> CHR ''0''" by simp
    with False show ?thesis by (simp add: decimal_big decimal_nonempty)
  qed
qed

lemma render_entries_saved:
  "fst (render_entries L i ps lines) = Inr ls \<Longrightarrow> (p, img, c) \<in> set ps
   \<Longrightarrow> fst (pil_save_jpeg L img) = Inr (saved_jpeg L img)"
proof (induction ps arbitrary: i lines)
  case Nil
  then show ?case by simp
next
  case (Cons x ps)
  obtain p' img' c' where x: "x = (p', img', c')" by (cases x) auto
  obtain r im where sv: "pil_save_jpeg L img' = (r, im)" by (cases "pil_save_jpeg L img'")
  show ?case
  proof (cases r)
    case (Inl e)
    with Cons.prems x sv show ?thesis by simp
  next
    case (Inr buffer)
    with Cons.prems x sv
    have rest: "fst (render_entries L (Suc i) ps (lines @ [heading i c', image_ref buffer, newline])) = Inr ls"
      by (simp add: case_prod_beta)
    show ?thesis
    proof (cases "(p, img, c) = x")
      case True
      with x sv Inr show ?thesis by (simp add: saved_jpeg_def)
    next
      case False
      with Cons.prems have "(p, img, c) \<in> set ps" by simp
      from Cons.IH[OF rest this] show ?thesis .
    qed
  qed
qed

lemma render_report_data_Inr:
  assumes "fst (render_report_data L rd) = Inr md"
  shows "md = join newline (report_lines L rd)"
proof -
  obtain r ps where re: "render_entries L 0 (photo_list rd)
      [title_line (property_address rd), lit ''% '' @ format_opt (author rd),
       lit ''% '' @ strftime (effective_date rd)] = (r, ps)"
    by (cases "render_entries L 0 (photo_list rd)
      [title_line (property_address rd), lit ''% '' @ format_opt (author rd),
       lit ''% '' @ strftime (effective_date rd)]")
  with assms obtain ls where r: "r = Inr ls" and md: "md = join newline ls"
    by (cases r) (auto simp: render_report_data_def Let_def)
  from re r have "fst (render_entries L 0 (photo_list rd)
      [title_line (property_address rd), lit ''% '' @ format_opt (author rd),
       lit ''% '' @ strftime (effective_date rd)]) = Inr ls" by simp
  from render_entries_Inr[OF this] md show ?thesis by (simp add: report_lines_def)
qed

lemma render_report_data_saved:
  assumes "fst (render_report_data L rd) = Inr md" and "(p, img, c) \<in> set (photo_list rd)"
  shows "fst (pil_save_jpeg L img) = Inr (saved_jpeg L img)"
proof -
  obtain r ps where re: "render_entries L 0 (photo_list rd)
      [title_line (property_address rd), lit ''% '' @ format_opt (author rd),
       lit ''% '' @ strftime (effective_date rd)] = (r, ps)"
    by (cases "render_entries L 0 (photo_list rd)
      [title_line (property_address rd), lit ''% '' @ format_opt (author rd),
       lit ''% '' @ strftime (effective_date rd)]")
  with assms(1) obtain ls where r: "r = Inr ls"
    by (cases r) (auto simp: render_report_data_def Let_def)
  from re r have "fst (render_entries L 0 (photo_list rd)
      [title_line (property_address rd), lit ''% '' @ format_opt (author rd),
       lit ''% '' @ strftime (effective_date rd)]) = Inr ls" by simp
  from render_entries_saved[OF this assms(2)] show ?thesis .
qed

lemma render_report_data_empty:
  "photo_list rd = [] \<Longrightarrow> fst (render_report_data L rd) = Inr (join newline (report_lines L rd))"
  by (simp add: render_report_data_def report_lines_def)

lemma entry_lines_nth:
  "i < length ps \<Longrightarrow>
   concat (map (entry_lines L) (enumerate k ps)) ! (3 * i) = heading (k + i) (snd (snd (ps ! i)))
   \<and> concat (map (entry_lines L) (enumerate k ps)) ! (3 * i + 1)
       = image_ref (saved_jpeg L (fst (snd (ps ! i))))"
proof (induction ps arbitrary: i k)
  case Nil
  then show ?case by simp
next
  case (Cons x ps)
  obtain p img c where x: "x = (p, img, c)" by (cases x) auto
  show ?case
  proof (cases i)
    case 0
    then show ?thesis by (simp add: x)
  next
    case (Suc j)
    with Cons.prems have j: "j < length ps" by simp
    have e: "3 * Suc j = Suc (Suc (Suc (3 * j)))" by simp
    show ?thesis
      using Cons.IH[OF j, of "Suc k"] by (simp only: Suc e) (simp add: x)
  qed
qed

lemma entry_lines_length: "length (concat (map (entry_lines L) (enumerate k ps))) = 3 * length ps"
  by (induction ps arbitrary: k) auto

lemma render_entries_ok:
  "(\<And>p img c. (p, img, c) \<in> set ps \<Longrightarrow> \<exists>b. fst (pil_save_jpeg L img) = Inr b)
   \<Longrightarrow> \<exists>ls. fst (render_entries L i ps lines) = Inr ls"
proof (induction ps arbitrary: i lines)
  case Nil
  then show ?case by simp
next
  case (Cons x ps)
  obtain p img c where x: "x = (p, img, c)" by (cases x) auto
  from Cons.prems[of p img c] x obtain b where b: "fst (pil_save_jpeg L img) = Inr b" by auto
  then obtain im where sv: "pil_save_jpeg L img = (Inr b, im)" by (cases "pil_save_jpeg L img") auto
  have "\<exists>ls. fst (render_entries L (Suc i) ps (lines @ [heading i c, image_ref b, newline])) = Inr ls"
    by (rule Cons.IH) (use Cons.prems in auto)
  then show ?case by (simp add: x sv case_prod_beta)
qed

lemma render_report_data_ok:
  assumes "\<And>p img c. (p, img, c) \<in> set (photo_list rd) \<Longrightarrow> \<exists>b. fst (pil_save_jpeg L img) = Inr b"
  shows "fst (render_report_data L rd) = Inr (join newline (report_lines L rd))"
proof -
  have "\<exists>ls. fst (render_entries L 0 (photo_list rd)
      [title_line (property_address rd), lit ''% '' @ format_opt (author rd),
       lit ''% '' @ strftime (effective_date rd)]) = Inr ls"
    by (rule render_entries_ok) (rule assms)
  then have "\<exists>md. fst (render_report_data L rd) = Inr md"
    by (auto simp: render_report_data_def Let_def split: prod.splits sum.splits)
  then obtain md where md: "fst (render_report_data L rd) = Inr md" by blast
  from render_report_data_Inr[OF md] md show ?thesis by simp
qed

lemma filter_report_lines:
  "filter (\<lambda>l. take 5 l = lit ''#### '') (report_lines L rd)
   = map (\<lambda>(i, p, img, c). heading i c) (enumerate 0 (photo_list rd))"
  by (simp add: report_lines_def filter_entry_lines not_heading_title not_heading_percent
      del: take_append)

lemma report_lines_nth:
  assumes "i < length (photo_list rd)"
  shows "report_lines L rd ! (3 + 3 * i) = heading i (snd (snd (photo_list rd ! i)))"
    and "report_lines L rd ! (3 + 3 * i + 1) = image_ref (saved_jpeg L (fst (snd (photo_list rd ! i))))"
  using entry_lines_nth[OF assms, of L 0]
  by (simp_all add: report_lines_def nth_append)

lemma toy_report_renders:
  "fst (render_report_data toy_pil toy_report) = Inr (join newline (report_lines toy_pil toy_report))"
  by (rule render_report_data_ok) (auto simp: toy_report_def toy_pil_def photo_a_def photo_b_def)

lemma join_three:
  "join sep (x # y # z # others) = x @ sep @ y @ sep @ z @ (if others = [] then [] else sep @ join sep others)"
  by (cases others) simp_all

lemma report_lines_front:
  "\<exists>rest. join newline (report_lines L rd)
      = title_line (property_address rd) @ newline
        @ (lit ''% '' @ format_opt (author rd)) @ newline
        @ (lit ''% '' @ strftime (effective_date rd)) @ rest
      \<and> (if photo_list rd = [] then rest = [] else take 1 rest = newline)"
proof -
  define others where "others = concat (map (entry_lines L) (enumerate 0 (photo_list rd)))"
  have m: "others = [] \<longleftrightarrow> photo_list rd = []"
  proof (cases "photo_list rd")
    case Nil
    then show ?thesis by (simp add: others_def)
  next
    case (Cons x xs)
    obtain p img c where "x = (p, img, c)" by (cases x) auto
    with Cons show ?thesis by (simp add: others_def enumerate_simps)
  qed
  have "join newline (report_lines L rd)
      = title_line (property_address rd) @ newline
        @ (lit ''% '' @ format_opt (author rd)) @ newline
        @ (lit ''% '' @ strftime (effective_date rd))
        @ (if others = [] then [] else newline @ join newline others)"
    by (simp only: report_lines_def others_def[symmetric] append_Cons append_Nil join_three)
  then show ?thesis using m by (intro exI[of _ "if others = [] then [] else newline @ join newline others"])
      (simp add: newline_def)
qed

lemma unlit: "map char_of (lit s) = s"
  by (simp add: lit_def comp_def)

lemma toy_save_a: "fst (pil_save_jpeg toy_pil photo_a) = Inr [0xFF, 0xD8, 3, 132, 1, 194]"
  by (simp add: toy_pil_def photo_a_def toy_jpeg_def)

lemma toy_b64: "b64encode [0xFF, 0xD8, 3, 132, 1, 194 :: byte] = ''/9gDhAHC''"
  by (simp add: b64_char_def b64_alphabet_def)

lemma toy_save_keeps: "snd (pil_save_jpeg toy_pil img) = img"
  by (simp add: toy_pil_def)

section \<open>The physical lines of the markup\<close>

lemma split_on_nonempty: "split_on s xs \<noteq> []"
  by (induction xs) (auto split: list.splits)

lemma split_on_none: "s \<notin> set xs \<Longrightarrow> split_on s xs = [xs]"
  by (induction xs) auto

lemma split_on_append: "split_on s (xs @ s # ys) = split_on s xs @ split_on s ys"
proof (induction xs)
  case Nil
  then show ?case by simp
next
  case (Cons x xs)
  obtain l ls where l: "split_on s xs = l # ls"
    using split_on_nonempty[of s xs] by (cases "split_on s xs") auto
  with Cons show ?case by simp
qed

lemma split_on_join:
  "ls \<noteq> [] \<Longrightarrow> split_on s (join [s] ls) = concat (map (split_on s) ls)"
proof (induction "[s]" ls rule: join.induct)
  case 1
  then show ?case by simp
next
  case (2 x)
  then show ?case by simp
next
  case (3 x y ys)
  then show ?case by (simp add: split_on_append)
qed

lemma digit_not_newline: "d < 10 \<Longrightarrow> of_char (digit d) \<noteq> (10 :: nat)"
proof -
  assume "d < 10"
  then have "digit d \<in> set ''0123456789''"
    unfolding digit_def by (intro nth_mem) simp
  moreover have "\<forall>c \<in> set ''0123456789''. of_char c \<noteq> (10 :: nat)"
    by simp
  ultimately show ?thesis by blast
qed

lemma decimal_no_newline: "10 \<notin> set (lit (decimal n))"
proof (induction n rule: decimal.induct)
  case (1 n)
  show ?case
  proof (cases "n < 10")
    case True
    then show ?thesis using digit_not_newline[of n] by (simp add: decimal_small lit_def)
  next
    case False
    with 1 have "10 \<notin> set (lit (decimal (n div 10)))" by simp
    moreover have "of_char (digit (n mod 10)) \<noteq> (10 :: nat)"
      by (rule digit_not_newline) simp
    ultimately show ?thesis using False by (simp add: decimal_big lit_def)
  qed
qed

lemma month_no_newline: "10 \<notin> set (lit (month_name m))"
  by (cases m) (simp_all add: lit_def)

lemma strftime_no_newline: "10 \<notin> set (strftime d)"
  using decimal_no_newline[of "day d"] decimal_no_newline[of "year d"] month_no_newline[of "month d"]
  by (simp add: strftime_def lit_def)

lemma b64_char_no_newline: "i < 64 \<Longrightarrow> of_char (b64_char i) \<noteq> (10 :: nat)"
proof -
  assume "i < 64"
  then have "b64_char i \<in> set b64_alphabet"
    by (simp add: b64_char_def b64_alphabet_length)
  moreover have "\<forall>c \<in> set b64_alphabet. of_char c \<noteq> (10 :: nat)"
    by (simp add: b64_alphabet_def)
  ultimately show ?thesis by blast
qed

lemma b64encode_no_newline: "10 \<notin> set (lit (b64encode bs))"
proof (induction bs rule: b64encode.induct)
  case 1
  then show ?case by (simp add: lit_def)
next
  case (2 a)
  have "unat a * 16 div 64 < 64" using byte_bound[of a] by simp
  then show ?case
    using b64_char_no_newline[of "unat a * 16 div 64"] b64_char_no_newline[of "unat a * 16 mod 64"]
    by (simp add: lit_def Let_def)
next
  case (3 a b)
  have "(unat a * 256 + unat b) * 4 div 4096 < 64"
    by (rule b64_first_index3) (rule byte_bound)+
  then show ?case
    using b64_char_no_newline[of "(unat a * 256 + unat b) * 4 div 4096"]
      b64_char_no_newline[of "(unat a * 256 + unat b) * 4 div 64 mod 64"]
      b64_char_no_newline[of "(unat a * 256 + unat b) * 4 mod 64"]
    by (simp add: lit_def Let_def)
next
  case (4 a b c rest)
  define n where "n = (unat a * 256 + unat b) * 256 + unat c"
  have "n div 262144 < 64"
    unfolding n_def by (rule b64_first_index4) (rule byte_bound)+
  then have "of_char (b64_char (n div 262144)) \<noteq> (10 :: nat)"
    "of_char (b64_char (n div 4096 mod 64)) \<noteq> (10 :: nat)"
    "of_char (b64_char (n div 64 mod 64)) \<noteq> (10 :: nat)"
    "of_char (b64_char (n mod 64)) \<noteq> (10 :: nat)"
    by (simp_all add: b64_char_no_newline)
  moreover have "b64encode (a # b # c # rest)
      = [b64_char (n div 262144), b64_char (n div 4096 mod 64),
         b64_char (n div 64 mod 64), b64_char (n mod 64)] @ b64encode rest"
    by (simp add: n_def Let_def)
  ultimately show ?case
    using 4[OF refl] by (simp only: lit_def) simp
qed

lemma image_ref_no_newline: "10 \<notin> set (image_ref b)"
  using b64encode_no_newline[of b] by (simp add: image_ref_def Let_def lit_def)

lemma heading_no_newline: "10 \<notin> set (py_format c) \<Longrightarrow> 10 \<notin> set (heading i c)"
  using decimal_no_newline[of "i + 1"] by (simp add: heading_def lit_def)

lemma split_entry_lines:
  assumes "10 \<notin> set (py_format c)"
  shows "concat (map (split_on 10) (entry_lines L (i, p, img, c)))
         = [heading i c, image_ref (saved_jpeg L img), [], []]"
  using split_on_none[OF heading_no_newline[OF assms, of i]]
    split_on_none[OF image_ref_no_newline[of "saved_jpeg L img"]]
  by (simp add: newline_def)

lemma filter_split_entry_lines:
  assumes "\<And>p img c. (p, img, c) \<in> set ps \<Longrightarrow> 10 \<notin> set (py_format c)"
  shows "filter (\<lambda>l. take 5 l = lit ''#### '')
           (concat (map (split_on 10) (concat (map (entry_lines L) (enumerate k ps)))))
         = map (\<lambda>(i, p, img, c). heading i c) (enumerate k ps)"
  using assms
proof (induction ps arbitrary: k)
  case Nil
  then show ?case by simp
next
  case (Cons x ps)
  obtain p img c where x: "x = (p, img, c)" by (cases x) auto
  have c: "10 \<notin> set (py_format c)" using Cons.prems[of p img c] x by simp
  have e: "[] \<noteq> lit ''#### ''" by (simp add: lit_def)
  have "filter (\<lambda>l. take 5 l = lit ''#### '')
           (concat (map (split_on 10) (concat (map (entry_lines L) (enumerate (Suc k) ps)))))
         = map (\<lambda>(i, p, img, c). heading i c) (enumerate (Suc k) ps)"
    by (rule Cons.IH) (use Cons.prems in auto)
  then show ?case
    using split_entry_lines[OF c, of L k p img] e
    by (simp add: x lit_heading_prefix not_heading_image_ref del: entry_lines.simps)
qed

text \<open>
  The lines of the renderer are the physical lines of the markup as long as nothing
  the renderer inserts brings a line feed of its own: when neither the address, the
  author nor a caption contains one, the first three physical lines are the front
  matter, and the physical lines that start with \<open>####\<close> are exactly the headings.
  (A caption with a line feed in it spreads its heading over several physical lines.)
\<close>

lemma physical_heading_lines:
  assumes "fst (render_report_data L rd) = Inr md"
    and "10 \<notin> set (format_opt (property_address rd))"
    and "10 \<notin> set (format_opt (author rd))"
    and "\<And>p img c. (p, img, c) \<in> set (photo_list rd) \<Longrightarrow> 10 \<notin> set (py_format c)"
  shows "filter (\<lambda>l. take 5 l = lit ''#### '') (split_on 10 md)
         = map (\<lambda>(i, p, img, c). heading i c) (enumerate 0 (photo_list rd))"
    and "take 3 (split_on 10 md)
         = [title_line (property_address rd), lit ''% '' @ format_opt (author rd),
            lit ''% '' @ strftime (effective_date rd)]"
proof -
  define front where "front = [title_line (property_address rd), lit ''% '' @ format_opt (author rd),
            lit ''% '' @ strftime (effective_date rd)]"
  define body where "body = concat (map (entry_lines L) (enumerate 0 (photo_list rd)))"
  have rl: "report_lines L rd = front @ body"
    by (simp add: report_lines_def front_def body_def)
  have md: "md = join [10] (front @ body)"
    using render_report_data_Inr[OF assms(1)] by (simp add: rl newline_def)
  have ne: "front @ body \<noteq> []" by (simp add: front_def)
  have t: "split_on 10 (title_line (property_address rd)) = [title_line (property_address rd)]"
    by (rule split_on_none) (use assms(2) in \<open>simp add: title_line_def lit_def\<close>)
  have a: "split_on 10 (lit ''% '' @ format_opt (author rd)) = [lit ''% '' @ format_opt (author rd)]"
    by (rule split_on_none) (use assms(3) in \<open>simp add: lit_def\<close>)
  have d: "split_on 10 (lit ''% '' @ strftime (effective_date rd))
      = [lit ''% '' @ strftime (effective_date rd)]"
    by (rule split_on_none) (use strftime_no_newline[of "effective_date rd"] in \<open>simp add: lit_def\<close>)
  have fr: "concat (map (split_on 10) front) = front"
    by (simp add: front_def t a d)
  have sp: "split_on 10 md = front @ concat (map (split_on 10) body)"
    unfolding md split_on_join[OF ne] by (simp add: fr)
  have nf: "filter (\<lambda>l. take 5 l = lit ''#### '') front = []"
    by (simp add: front_def not_heading_title not_heading_percent del: take_append)
  show "filter (\<lambda>l. take 5 l = lit ''#### '') (split_on 10 md)
         = map (\<lambda>(i, p, img, c). heading i c) (enumerate 0 (photo_list rd))"
    unfolding sp body_def using filter_split_entry_lines[of "photo_list rd" L 0, OF assms(4)] nf
    by simp
  show "take 3 (split_on 10 md)
         = [title_line (property_address rd), lit ''% '' @ format_opt (author rd),
            lit ''% '' @ strftime (effective_date rd)]"
    unfolding sp by (simp add: front_def)
qed

section \<open>The numerals and the lines of a rendered markup\<close>

lemma digit_value: "d < 10 \<Longrightarrow> of_char (digit d) = 48 + d"
proof -
  assume "d < 10"
  then have "d \<in> set [0 ..< 10]" by simp
  moreover have "\<forall>d \<in> set [0 ..< 10]. of_char (digit d) = 48 + d"
    by (simp add: digit_def upt_rec)
  ultimately show ?thesis by blast
qed

lemma digit_is_digit: "d < 10 \<Longrightarrow> digit d \<in> set ''0123456789''"
  by (simp only: digit_def) (rule nth_mem, simp)

lemma decimal_digits: "set (decimal n) \<subseteq> set ''0123456789''"
proof (induction n rule: decimal.induct)
  case (1 n)
  show ?case
  proof (cases "n < 10")
    case True
    then show ?thesis using digit_is_digit[of n] by (simp add: decimal_small)
  next
    case False
    with 1 have "set (decimal (n div 10)) \<subseteq> set ''0123456789''" by simp
    moreover have "digit (n mod 10) \<in> set ''0123456789''" by (rule digit_is_digit) simp
    ultimately show ?thesis using False by (simp add: decimal_big)
  qed
qed

lemma decimal_value: "foldl (\<lambda>a c. 10 * a + (of_char c - 48)) 0 (decimal n) = n"
proof (induction n rule: decimal.induct)
  case (1 n)
  show ?case
  proof (cases "n < 10")
    case True
    then show ?thesis by (simp add: decimal_small digit_value)
  next
    case False
    with 1 have "foldl (\<lambda>a c. 10 * a + (of_char c - 48)) 0 (decimal (n div 10)) = n div 10"
      by simp
    then show ?thesis using False by (simp add: decimal_big digit_value)
  qed
qed


lemma split_entries:
  assumes "\<And>p img c. (p, img, c) \<in> set ps \<Longrightarrow> 10 \<notin> set (py_format c)"
  shows "concat (map (split_on 10) (concat (map (entry_lines L) (enumerate k ps))))
         = concat (map (\<lambda>(i, p, img, c). [heading i c, image_ref (saved_jpeg L img), [], []])
                     (enumerate k ps))"
  using assms
proof (induction ps arbitrary: k)
  case Nil
  then show ?case by simp
next
  case (Cons x ps)
  obtain p img c where x: "x = (p, img, c)" by (cases x) auto
  have c: "10 \<notin> set (py_format c)" using Cons.prems[of p img c] x by simp
  have "concat (map (split_on 10) (concat (map (entry_lines L) (enumerate (Suc k) ps))))
         = concat (map (\<lambda>(i, p, img, c). [heading i c, image_ref (saved_jpeg L img), [], []])
                     (enumerate (Suc k) ps))"
    by (rule Cons.IH) (use Cons.prems in auto)
  then show ?case
    using split_entry_lines[OF c, of L k p img]
    by (simp add: x del: entry_lines.simps)
qed

lemma physical_entries_nth:
  "i < length ps \<Longrightarrow>
   concat (map (\<lambda>(i, p, img, c). [heading i c, image_ref (saved_jpeg L img), [], []])
             (enumerate k ps)) ! (4 * i) = heading (k + i) (snd (snd (ps ! i)))
   \<and> concat (map (\<lambda>(i, p, img, c). [heading i c, image_ref (saved_jpeg L img), [], []])
               (enumerate k ps)) ! (4 * i + 1)
       = image_ref (saved_jpeg L (fst (snd (ps ! i))))"
proof (induction ps arbitrary: i k)
  case Nil
  then show ?case by simp
next
  case (Cons x ps)
  obtain p img c where x: "x = (p, img, c)" by (cases x) auto
  show ?case
  proof (cases i)
    case 0
    then show ?thesis by (simp add: x)
  next
    case (Suc j)
    with Cons.prems have j: "j < length ps" by simp
    have e: "4 * Suc j = Suc (Suc (Suc (Suc (4 * j))))" by simp
    show ?thesis
      using Cons.IH[OF j, of "Suc k"] by (simp only: Suc e) (simp add: x)
  qed
qed

lemma physical_entries_length:
  "length (concat (map (\<lambda>(i, p, img, c). [heading i c, image_ref (saved_jpeg L img), [], []])
                     (enumerate k ps))) = 4 * length ps"
  by (induction ps arbitrary: k) auto

text \<open>
  With no line feed in the address, the author and the captions, the physical lines
  of a rendered markup are the three front-matter lines and then four per entry: the
  heading, the image reference and two empty lines.
\<close>

lemma physical_lines:
  assumes "fst (render_report_data L rd) = Inr md"
    and "10 \<notin> set (format_opt (property_address rd))"
    and "10 \<notin> set (format_opt (author rd))"
    and "\<And>p img c. (p, img, c) \<in> set (photo_list rd) \<Longrightarrow> 10 \<notin> set (py_format c)"
  shows "split_on 10 md
         = [title_line (property_address rd), lit ''% '' @ format_opt (author rd),
            lit ''% '' @ strftime (effective_date rd)]
           @ concat (map (\<lambda>(i, p, img, c). [heading i c, image_ref (saved_jpeg L img), [], []])
                       (enumerate 0 (photo_list rd)))"
proof -
  define front where "front = [title_line (property_address rd), lit ''% '' @ format_opt (author rd),
            lit ''% '' @ strftime (effective_date rd)]"
  define body where "body = concat (map (entry_lines L) (enumerate 0 (photo_list rd)))"
  have rl: "report_lines L rd = front @ body"
    by (simp add: report_lines_def front_def body_def)
  have md: "md = join [10] (front @ body)"
    using render_report_data_Inr[OF assms(1)] by (simp add: rl newline_def)
  have ne: "front @ body \<noteq> []" by (simp add: front_def)
  have t: "split_on 10 (title_line (property_address rd)) = [title_line (property_address rd)]"
    by (rule split_on_none) (use assms(2) in \<open>simp add: title_line_def lit_def\<close>)
  have a: "split_on 10 (lit ''% '' @ format_opt (author rd)) = [lit ''% '' @ format_opt (author rd)]"
    by (rule split_on_none) (use assms(3) in \<open>simp add: lit_def\<close>)
  have d: "split_on 10 (lit ''% '' @ strftime (effective_date rd))
      = [lit ''% '' @ strftime (effective_date rd)]"
    by (rule split_on_none) (use strftime_no_newline[of "effective_date rd"] in \<open>simp add: lit_def\<close>)
  have fr: "concat (map (split_on 10) front) = front"
    by (simp add: front_def t a d)
  have sp: "split_on 10 md = front @ concat (map (split_on 10) body)"
    unfolding md split_on_join[OF ne] by (simp add: fr)
  show ?thesis
    unfolding sp body_def front_def
    using split_entries[of "photo_list rd" L 0, OF assms(4)] by simp
qed

text \<open>
  The front matter needs less: whatever the captions hold, the first three physical
  lines are the front matter when the address and the author have no line feed.
\<close>

lemma physical_front_lines:
  assumes "fst (render_report_data L rd) = Inr md"
    and "10 \<notin> set (format_opt (property_address rd))"
    and "10 \<notin> set (format_opt (author rd))"
  shows "take 3 (split_on 10 md)
         = [title_line (property_address rd), lit ''% '' @ format_opt (author rd),
            lit ''% '' @ strftime (effective_date rd)]"
proof -
  from report_lines_front[of L rd] render_report_data_Inr[OF assms(1)]
  obtain rest where md: "md = title_line (property_address rd) @ newline
        @ (lit ''% '' @ format_opt (author rd)) @ newline
        @ (lit ''% '' @ strftime (effective_date rd)) @ rest"
    and rest: "if photo_list rd = [] then rest = [] else take 1 rest = newline"
    by auto
  have t: "split_on 10 (title_line (property_address rd)) = [title_line (property_address rd)]"
    by (rule split_on_none) (use assms(2) in \<open>simp add: title_line_def lit_def\<close>)
  have a: "split_on 10 (lit ''% '' @ format_opt (author rd)) = [lit ''% '' @ format_opt (author rd)]"
    by (rule split_on_none) (use assms(3) in \<open>simp add: lit_def\<close>)
  have d: "split_on 10 (lit ''% '' @ strftime (effective_date rd))
      = [lit ''% '' @ strftime (effective_date rd)]"
    by (rule split_on_none) (use strftime_no_newline[of "effective_date rd"] in \<open>simp add: lit_def\<close>)
  have r: "\<exists>more_lines. split_on 10 ((lit ''% '' @ strftime (effective_date rd)) @ rest)
      = (lit ''% '' @ strftime (effective_date rd)) # more_lines"
  proof (cases "rest = []")
    case True
    then show ?thesis using d by simp
  next
    case False
    with rest have "take 1 rest = [10]" by (auto simp: newline_def split: if_splits)
    then obtain r' where "rest = 10 # r'" by (cases rest) auto
    then show ?thesis
      using split_on_append[of 10 "lit ''% '' @ strftime (effective_date rd)" r'] d by simp
  qed
  then obtain more_lines where r': "split_on 10 ((lit ''% '' @ strftime (effective_date rd)) @ rest)
      = (lit ''% '' @ strftime (effective_date rd)) # more_lines" by blast
  have "split_on 10 md = title_line (property_address rd) # (lit ''% '' @ format_opt (author rd))
      # (lit ''% '' @ strftime (effective_date rd)) # more_lines"
    unfolding md newline_def
    using split_on_append[of 10 "title_line (property_address rd)"
        "(lit ''% '' @ format_opt (author rd)) @ [10]
          @ (lit ''% '' @ strftime (effective_date rd)) @ rest"]
      split_on_append[of 10 "lit ''% '' @ format_opt (author rd)"
        "(lit ''% '' @ strftime (effective_date rd)) @ rest"] t a r'
    by simp
  then show ?thesis by simp
qed

section \<open>The markup of the example reports\<close>

lemma toy_report_markup:
  "fst (render_report_data toy_pil toy_report)
   = Inr (map of_char
       (''% Home Owner'' @ [CHR 0x27] @ ''s Report for 123 Main St'' @ [CHR 0x0A]
        @ ''% J. Smith'' @ [CHR 0x0A]
        @ ''% March 4, 2024'' @ [CHR 0x0A]
        @ ''#### 1. Cracked tile'' @ [CHR 0x0A]
        @ ''![](data:image/jpeg;base64,/9gDhAHC){width=90%}'' @ [CHR 0x0A, CHR 0x0A, CHR 0x0A]
        @ ''#### 2. Loose railing'' @ [CHR 0x0A]
        @ ''![](data:image/jpeg;base64,/9gDhAHC){width=90%}'' @ [CHR 0x0A, CHR 0x0A]))"
  by (simp add: render_report_data_def Let_def toy_report_def toy_pil_def toy_jpeg_def
      photo_a_def photo_b_def heading_def image_ref_def b64_char_def b64_alphabet_def
      title_line_def strftime_def decimal_small decimal_big digit_def lit_def newline_def)

lemma line_feed_caption_markup:
  "fst (render_report_data toy_pil line_feed_caption_report)
   = Inr (map of_char
       (''% Home Owner'' @ [CHR 0x27] @ ''s Report for 123 Main St'' @ [CHR 0x0A]
        @ ''% J. Smith'' @ [CHR 0x0A]
        @ ''% March 4, 2024'' @ [CHR 0x0A]
        @ ''#### 1. a'' @ [CHR 0x0A]
        @ ''#### 7. fake'' @ [CHR 0x0A]
        @ ''![](data:image/jpeg;base64,/9gDhAHC){width=90%}'' @ [CHR 0x0A, CHR 0x0A]))"
  by (simp add: render_report_data_def Let_def line_feed_caption_report_def toy_report_def
      toy_pil_def toy_jpeg_def
      photo_a_def heading_def image_ref_def b64_char_def b64_alphabet_def
      title_line_def strftime_def decimal_small decimal_big digit_def lit_def newline_def)

lemma two_line_address_markup:
  "fst (render_report_data toy_pil two_line_address_report)
   = Inr (map of_char
       (''% Home Owner'' @ [CHR 0x27] @ ''s Report for 1 Main St'' @ [CHR 0x0A]
        @ ''#### Unit 2'' @ [CHR 0x0A]
        @ ''% J. Smith'' @ [CHR 0x0A]
        @ ''% March 4, 2024''))"
  by (simp add: render_report_data_def Let_def two_line_address_report_def toy_report_def
      title_line_def strftime_def decimal_small decimal_big digit_def lit_def newline_def)

section \<open>Headings and front matter, line by line\<close>

lemma format_opt_case:
  "format_opt x = (case x of None \<Rightarrow> map of_char ''None'' | Some s \<Rightarrow> s)"
  by (cases x) (simp_all add: lit_def)

lemma py_format_case: "py_format c = (case c of Text s \<Rightarrow> s | Object s \<Rightarrow> s)"
  by (cases c) simp_all

lemma format_opt_no_newline:
  "\<forall>s. x = Some s \<longrightarrow> 10 \<notin> set s \<Longrightarrow> 10 \<notin> set (format_opt x)"
  by (cases x) (simp_all add: lit_def)

lemma heading_text:
  "heading i c = map of_char (''#### '' @ decimal (i + 1) @ ''. '')
                 @ (case c of Text s \<Rightarrow> s | Object s \<Rightarrow> s)"
  by (simp add: heading_def lit_def py_format_case)

lemma month_name_case:
  "month_name m =
     (case m of
        January \<Rightarrow> ''January'' | February \<Rightarrow> ''February'' | March \<Rightarrow> ''March''
      | April \<Rightarrow> ''April'' | May \<Rightarrow> ''May'' | June \<Rightarrow> ''June'' | July \<Rightarrow> ''July''
      | August \<Rightarrow> ''August'' | September \<Rightarrow> ''September'' | October \<Rightarrow> ''October''
      | November \<Rightarrow> ''November'' | December \<Rightarrow> ''December'')"
  by (cases m) simp_all

text \<open>
  C4, as stated, fails: a caption may hold a line feed, and so may the address (and
  the author). With one photograph whose caption is \<open>a\<close>, a line feed and
  \<open>#### 7. fake\<close>, the markup has two heading lines for one entry, and the second
  carries the number 7. With no photograph and an address whose second line is
  \<open>#### Unit 2\<close>, the markup has a heading line for no entry.
\<close>

theorem line_feed_adds_heading_lines:
  "fst (render_report_data toy_pil line_feed_caption_report)
     = Inr (map of_char
         (''% Home Owner'' @ [CHR 0x27] @ ''s Report for 123 Main St'' @ [CHR 0x0A]
          @ ''% J. Smith'' @ [CHR 0x0A]
          @ ''% March 4, 2024'' @ [CHR 0x0A]
          @ ''#### 1. a'' @ [CHR 0x0A]
          @ ''#### 7. fake'' @ [CHR 0x0A]
          @ ''![](data:image/jpeg;base64,/9gDhAHC){width=90%}'' @ [CHR 0x0A, CHR 0x0A]))
   \<and> split_on (10::nat) (map of_char
         (''% Home Owner'' @ [CHR 0x27] @ ''s Report for 123 Main St'' @ [CHR 0x0A]
          @ ''% J. Smith'' @ [CHR 0x0A]
          @ ''% March 4, 2024'' @ [CHR 0x0A]
          @ ''#### 1. a'' @ [CHR 0x0A]
          @ ''#### 7. fake'' @ [CHR 0x0A]
          @ ''![](data:image/jpeg;base64,/9gDhAHC){width=90%}'' @ [CHR 0x0A, CHR 0x0A]))
     = [map of_char (''% Home Owner'' @ [CHR 0x27] @ ''s Report for 123 Main St''),
        map of_char ''% J. Smith'',
        map of_char ''% March 4, 2024'',
        map of_char ''#### 1. a'',
        map of_char ''#### 7. fake'',
        map of_char ''![](data:image/jpeg;base64,/9gDhAHC){width=90%}'',
        [], []]
   \<and> length (photo_list line_feed_caption_report) = 1
   \<and> fst (render_report_data toy_pil two_line_address_report)
     = Inr (map of_char
         (''% Home Owner'' @ [CHR 0x27] @ ''s Report for 1 Main St'' @ [CHR 0x0A]
          @ ''#### Unit 2'' @ [CHR 0x0A]
          @ ''% J. Smith'' @ [CHR 0x0A]
          @ ''% March 4, 2024''))
   \<and> length (photo_list two_line_address_report) = 0"
proof -
  have "length (photo_list line_feed_caption_report) = 1"
    by (simp add: line_feed_caption_report_def)
  moreover have "length (photo_list two_line_address_report) = 0"
    by (simp add: two_line_address_report_def)
  ultimately show ?thesis
    using line_feed_caption_markup two_line_address_markup by simp
qed

text \<open>
  C4, amended. When neither the address, the author nor a caption contains a line
  feed, a rendered markup of a photo list of length \<open>n\<close> has \<open>3 + 4 * n\<close> lines, and
  exactly \<open>n\<close> of them start with \<open>####\<close>: the headings, one per entry and in the order
  of the list. The heading of the entry at position \<open>i\<close> (counted from 0) is line
  \<open>3 + 4 * i\<close> and reads \<open>####\<close>, a blank, the number \<open>i + 1\<close> in decimal (digits only,
  no leading zero), a period, a blank and the entry's caption.
\<close>

theorem physical_headings_numbered:
  assumes "fst (render_report_data L rd) = Inr md"
    and "\<forall>s. property_address rd = Some s \<longrightarrow> 10 \<notin> set s"
    and "\<forall>s. author rd = Some s \<longrightarrow> 10 \<notin> set s"
    and "\<forall>(p, img, c) \<in> set (photo_list rd).
           10 \<notin> set (case c of Text s \<Rightarrow> s | Object s \<Rightarrow> s)"
  shows "length (filter (\<lambda>l. take 5 l = map of_char ''#### '') (split_on 10 md))
           = length (photo_list rd)
     \<and> length (split_on 10 md) = 3 + 4 * length (photo_list rd)
     \<and> (\<forall>i < length (photo_list rd).
           filter (\<lambda>l. take 5 l = map of_char ''#### '') (split_on 10 md) ! i
             = map of_char (''#### '' @ decimal (i + 1) @ ''. '')
               @ (case snd (snd (photo_list rd ! i)) of Text s \<Rightarrow> s | Object s \<Rightarrow> s)
           \<and> split_on 10 md ! (3 + 4 * i)
             = map of_char (''#### '' @ decimal (i + 1) @ ''. '')
               @ (case snd (snd (photo_list rd ! i)) of Text s \<Rightarrow> s | Object s \<Rightarrow> s)
           \<and> set (decimal (i + 1)) \<subseteq> set ''0123456789''
           \<and> hd (decimal (i + 1)) \<noteq> CHR ''0''
           \<and> foldl (\<lambda>a c. 10 * a + (of_char c - 48)) 0 (decimal (i + 1)) = i + 1)"
proof -
  have a: "10 \<notin> set (format_opt (property_address rd))"
    by (rule format_opt_no_newline) (rule assms(2))
  have b: "10 \<notin> set (format_opt (author rd))"
    by (rule format_opt_no_newline) (rule assms(3))
  have c: "\<And>p img c. (p, img, c) \<in> set (photo_list rd) \<Longrightarrow> 10 \<notin> set (py_format c)"
    using assms(4) by (auto simp: py_format_case)
  have f: "filter (\<lambda>l. take 5 l = map of_char ''#### '') (split_on 10 md)
         = map (\<lambda>(i, p, img, c). heading i c) (enumerate 0 (photo_list rd))"
    using physical_heading_lines(1)[OF assms(1) a b c] by (simp add: lit_def)
  note sp = physical_lines[OF assms(1) a b c]
  have n: "length (filter (\<lambda>l. take 5 l = map of_char ''#### '') (split_on 10 md))
           = length (photo_list rd)"
    unfolding f by simp
  have l: "length (split_on 10 md) = 3 + 4 * length (photo_list rd)"
    by (simp add: sp physical_entries_length)
  have e: "filter (\<lambda>l. take 5 l = map of_char ''#### '') (split_on 10 md) ! i
             = map of_char (''#### '' @ decimal (i + 1) @ ''. '')
               @ (case snd (snd (photo_list rd ! i)) of Text s \<Rightarrow> s | Object s \<Rightarrow> s)"
    if "i < length (photo_list rd)" for i
    unfolding f using that by (simp add: nth_enumerate_eq case_prod_beta heading_text)
  have p: "split_on 10 md ! (3 + 4 * i)
             = map of_char (''#### '' @ decimal (i + 1) @ ''. '')
               @ (case snd (snd (photo_list rd ! i)) of Text s \<Rightarrow> s | Object s \<Rightarrow> s)"
    if "i < length (photo_list rd)" for i
    using physical_entries_nth[OF that, of L 0]
    by (simp add: sp nth_append heading_text)
  show ?thesis
  proof (intro conjI allI impI)
    show "length (filter (\<lambda>l. take 5 l = map of_char ''#### '') (split_on 10 md))
           = length (photo_list rd)" by (rule n)
    show "length (split_on 10 md) = 3 + 4 * length (photo_list rd)" by (rule l)
  next
    fix i
    assume i: "i < length (photo_list rd)"
    show "filter (\<lambda>l. take 5 l = map of_char ''#### '') (split_on 10 md) ! i
             = map of_char (''#### '' @ decimal (i + 1) @ ''. '')
               @ (case snd (snd (photo_list rd ! i)) of Text s \<Rightarrow> s | Object s \<Rightarrow> s)"
      by (rule e[OF i])
    show "split_on 10 md ! (3 + 4 * i)
             = map of_char (''#### '' @ decimal (i + 1) @ ''. '')
               @ (case snd (snd (photo_list rd ! i)) of Text s \<Rightarrow> s | Object s \<Rightarrow> s)"
      by (rule p[OF i])
    show "set (decimal (i + 1)) \<subseteq> set ''0123456789''" by (rule decimal_digits)
    show "hd (decimal (i + 1)) \<noteq> CHR ''0''" by (rule decimal_no_leading_zero) simp
    show "foldl (\<lambda>a c. 10 * a + (of_char c - 48)) 0 (decimal (i + 1)) = i + 1"
      by (rule decimal_value)
  qed
qed


theorem physical_headings_numbered_witness:
  "\<exists>md. fst (render_report_data toy_pil toy_report) = Inr md
     \<and> md = map of_char
         (''% Home Owner'' @ [CHR 0x27] @ ''s Report for 123 Main St'' @ [CHR 0x0A]
          @ ''% J. Smith'' @ [CHR 0x0A]
          @ ''% March 4, 2024'' @ [CHR 0x0A]
          @ ''#### 1. Cracked tile'' @ [CHR 0x0A]
          @ ''![](data:image/jpeg;base64,/9gDhAHC){width=90%}'' @ [CHR 0x0A, CHR 0x0A, CHR 0x0A]
          @ ''#### 2. Loose railing'' @ [CHR 0x0A]
          @ ''![](data:image/jpeg;base64,/9gDhAHC){width=90%}'' @ [CHR 0x0A, CHR 0x0A])
     \<and> length (filter (\<lambda>l. take 5 l = map of_char ''#### '') (split_on 10 md)) = 2
     \<and> length (split_on 10 md) = 11
     \<and> filter (\<lambda>l. take 5 l = map of_char ''#### '') (split_on 10 md) ! 0
         = map of_char ''#### 1. Cracked tile''
     \<and> filter (\<lambda>l. take 5 l = map of_char ''#### '') (split_on 10 md) ! 1
         = map of_char ''#### 2. Loose railing''
     \<and> split_on 10 md ! 3 = map of_char ''#### 1. Cracked tile''
     \<and> split_on 10 md ! 7 = map of_char ''#### 2. Loose railing''"
proof -
  define md :: pystr where "md = map of_char
         (''% Home Owner'' @ [CHR 0x27] @ ''s Report for 123 Main St'' @ [CHR 0x0A]
          @ ''% J. Smith'' @ [CHR 0x0A]
          @ ''% March 4, 2024'' @ [CHR 0x0A]
          @ ''#### 1. Cracked tile'' @ [CHR 0x0A]
          @ ''![](data:image/jpeg;base64,/9gDhAHC){width=90%}'' @ [CHR 0x0A, CHR 0x0A, CHR 0x0A]
          @ ''#### 2. Loose railing'' @ [CHR 0x0A]
          @ ''![](data:image/jpeg;base64,/9gDhAHC){width=90%}'' @ [CHR 0x0A, CHR 0x0A])"
  have r: "fst (render_report_data toy_pil toy_report) = Inr md"
    unfolding md_def by (rule toy_report_markup)
  have h2: "\<forall>s. property_address toy_report = Some s \<longrightarrow> 10 \<notin> set s"
    by (simp add: toy_report_def lit_def)
  have h3: "\<forall>s. author toy_report = Some s \<longrightarrow> 10 \<notin> set s"
    by (simp add: toy_report_def lit_def)
  have h4: "\<forall>(p, img, c) \<in> set (photo_list toy_report).
           10 \<notin> set (case c of Text s \<Rightarrow> s | Object s \<Rightarrow> s)"
    by (simp add: toy_report_def lit_def)
  note t = physical_headings_numbered[OF r h2 h3 h4]
  have n: "length (photo_list toy_report) = 2" by (simp add: toy_report_def)
  have c0: "snd (snd (photo_list toy_report ! 0)) = Text (map of_char ''Cracked tile'')"
    by (simp add: toy_report_def lit_def)
  have c1: "snd (snd (photo_list toy_report ! 1)) = Text (map of_char ''Loose railing'')"
    by (simp add: toy_report_def lit_def)
  have d1: "decimal (0 + 1) = ''1''" by (simp add: decimal_small digit_def)
  have d2: "decimal (1 + 1) = ''2''" by (simp add: decimal_small digit_def)
  have a: "length (filter (\<lambda>l. take 5 l = map of_char ''#### '') (split_on 10 md)) = 2"
    using t[THEN conjunct1] by (simp only: n)
  have b: "length (split_on 10 md) = 11"
    using t[THEN conjunct2, THEN conjunct1] by (simp only: n; simp)
  have i0: "(0::nat) < length (photo_list toy_report)" by (simp add: n)
  have i1: "(1::nat) < length (photo_list toy_report)" by (simp add: n)
  note t0 = t[THEN conjunct2, THEN conjunct2, THEN spec, THEN mp, OF i0]
  note t1 = t[THEN conjunct2, THEN conjunct2, THEN spec, THEN mp, OF i1]
  have f0: "filter (\<lambda>l. take 5 l = map of_char ''#### '') (split_on 10 md) ! 0
         = map of_char ''#### 1. Cracked tile''"
    using t0[THEN conjunct1] by (simp only: c0 d1; simp)
  have f1: "filter (\<lambda>l. take 5 l = map of_char ''#### '') (split_on 10 md) ! 1
         = map of_char ''#### 2. Loose railing''"
    using t1[THEN conjunct1] by (simp only: c1 d2; simp)
  have p0: "split_on 10 md ! 3 = map of_char ''#### 1. Cracked tile''"
    using t0[THEN conjunct2, THEN conjunct1] by (simp only: c0 d1; simp)
  have p1: "split_on 10 md ! 7 = map of_char ''#### 2. Loose railing''"
    using t1[THEN conjunct2, THEN conjunct1] by (simp only: c1 d2; simp)
  show ?thesis
    by (rule exI[of _ md]) (intro conjI r md_def a b f0 f1 p0 p1)
qed

text \<open>
  C7, as stated, fails: the address is inserted as it is given, and an address of
  two lines gives a front matter of four. The second line of this markup is not the
  line of the author, the third is not the line of the date, and with no photograph
  the output is four lines, not three.
\<close>

theorem line_feed_address_front_matter:
  "fst (render_report_data toy_pil two_line_address_report)
     = Inr (map of_char
         (''% Home Owner'' @ [CHR 0x27] @ ''s Report for 1 Main St'' @ [CHR 0x0A]
          @ ''#### Unit 2'' @ [CHR 0x0A]
          @ ''% J. Smith'' @ [CHR 0x0A]
          @ ''% March 4, 2024''))
   \<and> split_on (10::nat) (map of_char
         (''% Home Owner'' @ [CHR 0x27] @ ''s Report for 1 Main St'' @ [CHR 0x0A]
          @ ''#### Unit 2'' @ [CHR 0x0A]
          @ ''% J. Smith'' @ [CHR 0x0A]
          @ ''% March 4, 2024''))
     = [map of_char (''% Home Owner'' @ [CHR 0x27] @ ''s Report for 1 Main St''),
        map of_char ''#### Unit 2'',
        map of_char ''% J. Smith'',
        map of_char ''% March 4, 2024'']
   \<and> photo_list two_line_address_report = []
   \<and> author two_line_address_report = Some (map of_char ''J. Smith'')"
proof -
  have "photo_list two_line_address_report = []"
    by (simp add: two_line_address_report_def)
  moreover have "author two_line_address_report = Some (map of_char ''J. Smith'')"
    by (simp add: two_line_address_report_def toy_report_def lit_def)
  ultimately show ?thesis
    using two_line_address_markup by simp
qed

text \<open>
  C7, amended. A rendered markup begins with the title line with the property
  address, a line feed, the line of the author, a line feed, and the line of the
  date as month name, day, comma and year, the day without a leading zero; after
  them comes nothing when the photo list is empty (and then the rendering always
  succeeds), and a line feed otherwise. When neither the address nor the author
  contains a line feed, these three are the first three lines of the markup, and
  with an empty photo list they are all its lines. An address or an author that is
  not given prints as \<open>None\<close>.
\<close>

theorem front_matter_lines:
  fixes rd :: "'a report_data_scheme"
  defines "title \<equiv> map of_char (''% Home Owner'' @ [CHR 0x27] @ ''s Report for '')
                     @ (case property_address rd of
                          None \<Rightarrow> map of_char ''None'' | Some s \<Rightarrow> s)"
    and "author_line \<equiv> map of_char ''% ''
                          @ (case author rd of None \<Rightarrow> map of_char ''None'' | Some s \<Rightarrow> s)"
    and "date_line \<equiv>
           map of_char
             (''% ''
              @ (case month (effective_date rd) of
                   January \<Rightarrow> ''January'' | February \<Rightarrow> ''February'' | March \<Rightarrow> ''March''
                 | April \<Rightarrow> ''April'' | May \<Rightarrow> ''May'' | June \<Rightarrow> ''June'' | July \<Rightarrow> ''July''
                 | August \<Rightarrow> ''August'' | September \<Rightarrow> ''September''
                 | October \<Rightarrow> ''October'' | November \<Rightarrow> ''November''
                 | December \<Rightarrow> ''December'')
              @ '' '' @ decimal (day (effective_date rd))
              @ '', '' @ decimal (year (effective_date rd)))"
  shows "(fst (render_report_data L rd) = Inr md \<longrightarrow>
            (\<exists>rest. md = title @ [10] @ author_line @ [10] @ date_line @ rest
                  \<and> (if photo_list rd = [] then rest = [] else take 1 rest = [10]))
            \<and> ((\<forall>s. property_address rd = Some s \<longrightarrow> 10 \<notin> set s)
                \<and> (\<forall>s. author rd = Some s \<longrightarrow> 10 \<notin> set s) \<longrightarrow>
                 take 3 (split_on 10 md) = [title, author_line, date_line]
                 \<and> (photo_list rd = [] \<longrightarrow> split_on 10 md = [title, author_line, date_line])))
     \<and> (photo_list rd = [] \<longrightarrow> (\<exists>m. fst (render_report_data L rd) = Inr m))
     \<and> set (decimal (day (effective_date rd))) \<subseteq> set ''0123456789''
     \<and> foldl (\<lambda>a c. 10 * a + (of_char c - 48)) 0 (decimal (day (effective_date rd)))
         = day (effective_date rd)
     \<and> (0 < day (effective_date rd) \<longrightarrow> hd (decimal (day (effective_date rd))) \<noteq> CHR ''0'')
     \<and> set (decimal (year (effective_date rd))) \<subseteq> set ''0123456789''
     \<and> foldl (\<lambda>a c. 10 * a + (of_char c - 48)) 0 (decimal (year (effective_date rd)))
         = year (effective_date rd)"
proof -
  have t: "title_line (property_address rd) = title"
    by (simp add: title_line_def title_def lit_def format_opt_case)
  have a: "lit ''% '' @ format_opt (author rd) = author_line"
    by (simp add: author_line_def lit_def format_opt_case)
  have d: "lit ''% '' @ strftime (effective_date rd) = date_line"
    by (simp add: date_line_def strftime_def lit_def month_name_case)
  have front: "\<exists>rest. md = title @ [10] @ author_line @ [10] @ date_line @ rest
                  \<and> (if photo_list rd = [] then rest = [] else take 1 rest = [10])"
    if "fst (render_report_data L rd) = Inr md"
    using render_report_data_Inr[OF that] report_lines_front[of L rd]
    unfolding t a d newline_def by simp
  have lines: "take 3 (split_on 10 md) = [title, author_line, date_line]"
    if "fst (render_report_data L rd) = Inr md"
      and "\<forall>s. property_address rd = Some s \<longrightarrow> 10 \<notin> set s"
      and "\<forall>s. author rd = Some s \<longrightarrow> 10 \<notin> set s"
    using physical_front_lines[OF that(1) format_opt_no_newline[OF that(2)]
        format_opt_no_newline[OF that(3)]]
    unfolding t a d .
  have all_lines: "split_on 10 md = [title, author_line, date_line]"
    if "fst (render_report_data L rd) = Inr md"
      and "\<forall>s. property_address rd = Some s \<longrightarrow> 10 \<notin> set s"
      and "\<forall>s. author rd = Some s \<longrightarrow> 10 \<notin> set s"
      and "photo_list rd = []"
  proof -
    have "\<And>p img c. (p, img, c) \<in> set (photo_list rd) \<Longrightarrow> 10 \<notin> set (py_format c)"
      using that(4) by simp
    from physical_lines[OF that(1) format_opt_no_newline[OF that(2)]
        format_opt_no_newline[OF that(3)] this]
    show ?thesis unfolding t a d by (simp add: that(4))
  qed
  have ok: "\<exists>m. fst (render_report_data L rd) = Inr m" if "photo_list rd = []"
    using render_report_data_empty[OF that, of L] by blast
  show ?thesis
  proof (intro conjI impI)
    assume r: "fst (render_report_data L rd) = Inr md"
    show "\<exists>rest. md = title @ [10] @ author_line @ [10] @ date_line @ rest
                  \<and> (if photo_list rd = [] then rest = [] else take 1 rest = [10])"
      by (rule front[OF r])
    assume h: "(\<forall>s. property_address rd = Some s \<longrightarrow> 10 \<notin> set s)
                \<and> (\<forall>s. author rd = Some s \<longrightarrow> 10 \<notin> set s)"
    show "take 3 (split_on 10 md) = [title, author_line, date_line]"
      by (rule lines[OF r conjunct1[OF h] conjunct2[OF h]])
    assume "photo_list rd = []"
    then show "split_on 10 md = [title, author_line, date_line]"
      by (rule all_lines[OF r conjunct1[OF h] conjunct2[OF h]])
  next
    assume "photo_list rd = []"
    then show "\<exists>m. fst (render_report_data L rd) = Inr m" by (rule ok)
  next
    show "set (decimal (day (effective_date rd))) \<subseteq> set ''0123456789''"
      by (rule decimal_digits)
    show "foldl (\<lambda>a c. 10 * a + (of_char c - 48)) 0 (decimal (day (effective_date rd)))
         = day (effective_date rd)" by (rule decimal_value)
    show "set (decimal (year (effective_date rd))) \<subseteq> set ''0123456789''"
      by (rule decimal_digits)
    show "foldl (\<lambda>a c. 10 * a + (of_char c - 48)) 0 (decimal (year (effective_date rd)))
         = year (effective_date rd)" by (rule decimal_value)
  next
    assume "0 < day (effective_date rd)"
    then show "hd (decimal (day (effective_date rd))) \<noteq> CHR ''0''"
      by (rule decimal_no_leading_zero)
  qed
qed

theorem front_matter_lines_witness:
  "fst (render_report_data toy_pil (toy_report\<lparr>photo_list := []\<rparr>))
     = Inr (map of_char
         (''% Home Owner'' @ [CHR 0x27] @ ''s Report for 123 Main St'' @ [CHR 0x0A]
          @ ''% J. Smith'' @ [CHR 0x0A]
          @ ''% March 4, 2024''))
   \<and> split_on (10::nat) (map of_char
         (''% Home Owner'' @ [CHR 0x27] @ ''s Report for 123 Main St'' @ [CHR 0x0A]
          @ ''% J. Smith'' @ [CHR 0x0A]
          @ ''% March 4, 2024''))
     = [map of_char (''% Home Owner'' @ [CHR 0x27] @ ''s Report for 123 Main St''),
        map of_char ''% J. Smith'',
        map of_char ''% March 4, 2024'']
   \<and> decimal (day (effective_date toy_report)) = ''4''"
proof -
  have e: "photo_list (toy_report\<lparr>photo_list := []\<rparr>) = []" by simp
  obtain m where m: "fst (render_report_data toy_pil (toy_report\<lparr>photo_list := []\<rparr>)) = Inr m"
    using front_matter_lines[where L = toy_pil and rd = "toy_report\<lparr>photo_list := []\<rparr>",
        THEN conjunct2, THEN conjunct1, THEN mp, OF e] by blast
  note t = front_matter_lines[where L = toy_pil and rd = "toy_report\<lparr>photo_list := []\<rparr>"
      and md = m, THEN conjunct1, THEN mp, OF m]
  have h: "(\<forall>s. property_address (toy_report\<lparr>photo_list := []\<rparr>) = Some s \<longrightarrow> 10 \<notin> set s)
      \<and> (\<forall>s. author (toy_report\<lparr>photo_list := []\<rparr>) = Some s \<longrightarrow> 10 \<notin> set s)"
    by (simp add: toy_report_def lit_def)
  have d4: "decimal 4 = ''4''" by (simp add: decimal_small digit_def)
  have d2024: "decimal 2024 = ''2024''" by (simp add: decimal_small decimal_big digit_def)
  from t[THEN conjunct1]
  have a: "m = map of_char
         (''% Home Owner'' @ [CHR 0x27] @ ''s Report for 123 Main St'' @ [CHR 0x0A]
          @ ''% J. Smith'' @ [CHR 0x0A]
          @ ''% March 4, 2024'')"
    by (simp add: toy_report_def d4 d2024 lit_def)
  from t[THEN conjunct2, THEN mp, OF h, THEN conjunct2, THEN mp, OF e]
  have b: "split_on 10 m
     = [map of_char (''% Home Owner'' @ [CHR 0x27] @ ''s Report for 123 Main St''),
        map of_char ''% J. Smith'',
        map of_char ''% March 4, 2024'']"
    by (simp add: toy_report_def d4 d2024 lit_def)
  have c: "decimal (day (effective_date toy_report)) = ''4''"
    by (simp add: toy_report_def d4)
  from m b c show ?thesis unfolding a by simp
qed

text \<open>
  The line of the image: with no line feed in the address, the author and the
  captions, the line after the heading of entry \<open>i\<close> is
  \<open>![](data:image/jpeg;base64,<text>){width=90%}\<close>, where the text is the Base64
  encoding of the bytes the encoder returned for the entry's image, and decoding the
  text gives back exactly those bytes. What these bytes are is the imaging library's
  business.
\<close>

lemma image_reference_line:
  assumes "fst (render_report_data L rd) = Inr md"
    and "\<forall>s. property_address rd = Some s \<longrightarrow> 10 \<notin> set s"
    and "\<forall>s. author rd = Some s \<longrightarrow> 10 \<notin> set s"
    and "\<forall>(p, img, c) \<in> set (photo_list rd).
           10 \<notin> set (case c of Text s \<Rightarrow> s | Object s \<Rightarrow> s)"
    and "i < length (photo_list rd)"
  shows "\<exists>bs. fst (pil_save_jpeg L (fst (snd (photo_list rd ! i)))) = Inr bs
     \<and> split_on 10 md ! (3 + 4 * i + 1)
         = map of_char (''![](data:image/jpeg;base64,'' @ b64encode bs @ ''){width=90%}'')
     \<and> b64decode (b64encode bs) = Some bs"
proof -
  define img where "img = fst (snd (photo_list rd ! i))"
  have a: "10 \<notin> set (format_opt (property_address rd))"
    by (rule format_opt_no_newline) (rule assms(2))
  have b: "10 \<notin> set (format_opt (author rd))"
    by (rule format_opt_no_newline) (rule assms(3))
  have c: "\<And>p img c. (p, img, c) \<in> set (photo_list rd) \<Longrightarrow> 10 \<notin> set (py_format c)"
    using assms(4) by (auto simp: py_format_case)
  have "photo_list rd ! i \<in> set (photo_list rd)" using assms(5) by simp
  then have mem: "(fst (photo_list rd ! i), img, snd (snd (photo_list rd ! i))) \<in> set (photo_list rd)"
    by (simp add: img_def)
  have sv: "fst (pil_save_jpeg L img) = Inr (saved_jpeg L img)"
    by (rule render_report_data_saved[OF assms(1) mem])
  have line: "split_on 10 md ! (3 + 4 * i + 1)
      = map of_char (''![](data:image/jpeg;base64,'' @ b64encode (saved_jpeg L img)
                     @ ''){width=90%}'')"
    using physical_entries_nth[OF assms(5), of L 0]
    by (simp add: physical_lines[OF assms(1) a b c] nth_append image_ref_def Let_def lit_def
        img_def)
  show ?thesis
    using sv line b64_roundtrip[of "saved_jpeg L img"] unfolding img_def by blast
qed

section \<open>What the renderer does to its argument\<close>











section \<open>What the photo selection yields\<close>








lemma toy_decode_hi: "decode_utf8 [0x48, 0x00, 0x69, 0x00, 0x00, 0x00] = Inr [72, 0, 105, 0, 0, 0]"
  by simp

lemma toy_decode_bad: "decode_utf8 [0xFF] = Inl UnicodeDecodeError"
  by simp











section \<open>The run: what is written, and when\<close>

lemma html_path: "with_suffix ''report.md'' ''.html'' = Inr ''report.html''"
  by (simp add: with_suffix_def suffix_of_def rfind_def)

lemma main_run:
  "main L a w =
     (case get_most_recent_photos L (iterdir w) (arg_photo_path a) of
        Inl e \<Rightarrow> (Some e, w)
      | Inr ps \<Rightarrow>
          (case fst (render_report_data L
                       \<lparr>effective_date = today w, property_address = arg_property_address a,
                        author = arg_author a, photo_list = ps\<rparr>) of
             Inl e \<Rightarrow> (Some e, w)
           | Inr md \<Rightarrow>
               (case open_fails w ''report.md'' of
                  Some e \<Rightarrow> (Some e, w)
                | None \<Rightarrow>
                    (case print_fails w ''report.md'' md of
                       Some (e, left) \<Rightarrow>
                         (Some e, w\<lparr>files := (files w)(''report.md'' \<mapsto> left),
                                    trace := trace w @ [Truncate ''report.md'',
                                                        Write ''report.md'' left]\<rparr>)
                     | None \<Rightarrow>
                         (case open_fails w ''report.html'' of
                            Some e \<Rightarrow>
                              (Some e, w\<lparr>files := (files w)(''report.md'' \<mapsto> md @ newline),
                                         trace := trace w @ [Truncate ''report.md'',
                                                             Write ''report.md'' (md @ newline)]\<rparr>)
                          | None \<Rightarrow>
                              (let w4 = w\<lparr>files := (files w)(''report.md'' \<mapsto> md @ newline,
                                                               ''report.html'' \<mapsto> []),
                                           trace := trace w @ [Truncate ''report.md'',
                                                               Write ''report.md'' (md @ newline),
                                                               Truncate ''report.html'',
                                                               Run pandoc_args md]\<rparr>
                               in case check_output w pandoc_args md of
                                    Inl e \<Rightarrow> (Some e, w4)
                                  | Inr html \<Rightarrow> print_to w4 ''report.html'' html))))))"
  by (auto simp: main_def html_path open_w_def print_to_def markdown_to_html_def
      report_filepath_def Let_def split: sum.splits option.splits prod.splits)

text \<open>
  A run that starts the converter: how it got there and how it ends. The events
  before the start are exactly three, the markup file is written in full by then,
  and on failure of the converter nothing follows.
\<close>

lemma main_converter_started:
  assumes "trace (snd (main L a w)) = trace w @ pre @ Run cmd inp # post"
  shows "\<exists>ps. get_most_recent_photos L (iterdir w) (arg_photo_path a) = Inr ps
           \<and> fst (render_report_data L
                     \<lparr>effective_date = today w, property_address = arg_property_address a,
                      author = arg_author a, photo_list = ps\<rparr>) = Inr inp"
    and "cmd = pandoc_args"
    and "pre = [Truncate ''report.md'', Write ''report.md'' (inp @ newline),
                Truncate ''report.html'']"
    and "open_fails w ''report.md'' = None \<and> print_fails w ''report.md'' inp = None
         \<and> open_fails w ''report.html'' = None"
    and "main L a w =
          (let w4 = w\<lparr>files := (files w)(''report.md'' \<mapsto> inp @ newline,
                                           ''report.html'' \<mapsto> []),
                       trace := trace w @ [Truncate ''report.md'',
                                           Write ''report.md'' (inp @ newline),
                                           Truncate ''report.html'',
                                           Run pandoc_args inp]\<rparr>
           in case check_output w pandoc_args inp of
                Inl e \<Rightarrow> (Some e, w4)
              | Inr html \<Rightarrow> print_to w4 ''report.html'' html)"
  using assms
  by (auto simp: main_run[of L a w] Let_def print_to_def Cons_eq_append_conv
      split: sum.splits option.splits prod.splits)



text \<open>
  C5. When the photo directory cannot be listed (it does not exist, or it cannot be
  read), the run ends with that error and the environment is as it was: no file has
  been created or changed and no effect has happened.
\<close>

theorem main_unlistable_directory:
  assumes "arg_photo_path a = Some d" and "iterdir w d = Inl e"
  shows "main L a w = (Some e, w)"
  using assms by (simp add: main_def get_most_recent_photos_def)

theorem main_unlistable_directory_witness:
  "arg_photo_path (toy_args ''nowhere'') = Some ''nowhere''
   \<and> iterdir toy_world ''nowhere'' = Inl FileNotFoundError
   \<and> main toy_pil (toy_args ''nowhere'') toy_world = (Some FileNotFoundError, toy_world)
   \<and> files toy_world ''report.md'' = None \<and> files toy_world ''report.html'' = None"
proof -
  have a: "arg_photo_path (toy_args ''nowhere'') = Some ''nowhere''"
    by (simp add: toy_args_def)
  have b: "iterdir toy_world ''nowhere'' = Inl FileNotFoundError"
    by (simp add: toy_world_def)
  show ?thesis
    using main_unlistable_directory[OF a b, of toy_pil] a b by (simp add: toy_world_def)
qed

text \<open>The run on the empty directory of the example environment.\<close>

lemma toy_empty_photos:
  "get_most_recent_photos toy_pil (iterdir toy_world) (arg_photo_path (toy_args ''empty'')) = Inr []"
  by (simp add: get_most_recent_photos_def toy_world_def toy_args_def)

lemma toy_empty_render:
  "fst (render_report_data toy_pil
          \<lparr>effective_date = today toy_world,
           property_address = arg_property_address (toy_args ''empty''),
           author = arg_author (toy_args ''empty''), photo_list = []\<rparr>)
   = Inr (map of_char (''% Home Owner'' @ [CHR 0x27] @ ''s Report for 123 Main St'' @ [CHR 0x0A]
                       @ ''% J. Smith'' @ [CHR 0x0A] @ ''% March 4, 2024''))"
  by (simp add: render_report_data_def toy_world_def toy_args_def title_line_def strftime_def
      decimal_small decimal_big digit_def lit_def newline_def)

lemma toy_open_ok: "open_fails toy_world p = None"
  by (simp add: toy_world_def)

lemma toy_print_ok: "print_fails toy_world p s = None"
  by (simp add: toy_world_def)

lemma toy_converter_fails: "check_output toy_world cmd inp = Inl CalledProcessError"
  by (simp add: toy_world_def)

lemma toy_empty_trace:
  "trace (snd (main toy_pil (toy_args ''empty'') toy_world)) =
     trace toy_world
     @ [Truncate ''report.md'',
        Write ''report.md''
          (map of_char (''% Home Owner'' @ [CHR 0x27] @ ''s Report for 123 Main St'' @ [CHR 0x0A]
                        @ ''% J. Smith'' @ [CHR 0x0A] @ ''% March 4, 2024'' @ [CHR 0x0A])),
        Truncate ''report.html'']
     @ Run pandoc_args
         (map of_char (''% Home Owner'' @ [CHR 0x27] @ ''s Report for 123 Main St'' @ [CHR 0x0A]
                       @ ''% J. Smith'' @ [CHR 0x0A] @ ''% March 4, 2024''))
       # []"
  by (simp add: main_run[of toy_pil "toy_args ''empty''" toy_world] toy_empty_photos
      toy_empty_render toy_open_ok toy_print_ok toy_converter_fails newline_def)



text \<open>
  C9. In a run that starts the converter, the effect just before the start is the
  emptying of \<open>report.html\<close>: the file is opened for writing before the conversion
  runs. If the converter then fails (the executable is missing, or it exits with a
  non-zero status), nothing follows: the run ends with the converter's error, and
  the files left behind are an empty \<open>report.html\<close> and \<open>report.md\<close> with the whole
  rendered markup.
\<close>

theorem main_converter_failure_leaves_empty_html:
  assumes "trace (snd (main L a w)) = trace w @ pre @ Run cmd inp # post"
  shows "(\<exists>earlier. pre = earlier @ [Truncate ''report.html''])
     \<and> (\<forall>e. check_output w cmd inp = Inl e \<longrightarrow>
           fst (main L a w) = Some e
           \<and> post = []
           \<and> files (snd (main L a w)) ''report.html'' = Some []
           \<and> files (snd (main L a w)) ''report.md'' = Some (inp @ [10])
           \<and> (\<exists>ps. get_most_recent_photos L (iterdir w) (arg_photo_path a) = Inr ps
                 \<and> fst (render_report_data L
                           \<lparr>effective_date = today w,
                            property_address = arg_property_address a,
                            author = arg_author a, photo_list = ps\<rparr>) = Inr inp))"
proof (intro conjI allI impI)
  note s = main_converter_started[OF assms]
  show "\<exists>earlier. pre = earlier @ [Truncate ''report.html'']"
    using s(3) by simp
  fix e
  assume c: "check_output w cmd inp = Inl e"
  have m: "main L a w =
      (Some e, w\<lparr>files := (files w)(''report.md'' \<mapsto> inp @ newline, ''report.html'' \<mapsto> []),
                 trace := trace w @ [Truncate ''report.md'', Write ''report.md'' (inp @ newline),
                                     Truncate ''report.html'', Run pandoc_args inp]\<rparr>)"
    using c by (simp add: s(5) s(2) Let_def)
  show "fst (main L a w) = Some e" by (simp add: m)
  show "post = []" using assms by (simp add: m s(3))
  show "files (snd (main L a w)) ''report.html'' = Some []" by (simp add: m)
  show "files (snd (main L a w)) ''report.md'' = Some (inp @ [10])" by (simp add: m newline_def)
  show "\<exists>ps. get_most_recent_photos L (iterdir w) (arg_photo_path a) = Inr ps
                 \<and> fst (render_report_data L
                           \<lparr>effective_date = today w,
                            property_address = arg_property_address a,
                            author = arg_author a, photo_list = ps\<rparr>) = Inr inp"
    by (rule s(1))
qed

theorem main_converter_failure_leaves_empty_html_witness:
  "check_output toy_world pandoc_args
      (map of_char (''% Home Owner'' @ [CHR 0x27] @ ''s Report for 123 Main St'' @ [CHR 0x0A]
                    @ ''% J. Smith'' @ [CHR 0x0A] @ ''% March 4, 2024''))
     = Inl CalledProcessError
   \<and> fst (main toy_pil (toy_args ''empty'') toy_world) = Some CalledProcessError
   \<and> files (snd (main toy_pil (toy_args ''empty'') toy_world)) ''report.html'' = Some []
   \<and> files (snd (main toy_pil (toy_args ''empty'') toy_world)) ''report.md''
       = Some (map of_char (''% Home Owner'' @ [CHR 0x27] @ ''s Report for 123 Main St''
                            @ [CHR 0x0A] @ ''% J. Smith'' @ [CHR 0x0A] @ ''% March 4, 2024''
                            @ [CHR 0x0A]))
   \<and> files toy_world ''report.html'' = None"
proof -
  note t = main_converter_failure_leaves_empty_html[OF toy_empty_trace, THEN conjunct2,
      THEN spec, THEN mp, OF toy_converter_fails]
  from t have "fst (main toy_pil (toy_args ''empty'') toy_world) = Some CalledProcessError"
    and "files (snd (main toy_pil (toy_args ''empty'') toy_world)) ''report.html'' = Some []"
    and "files (snd (main toy_pil (toy_args ''empty'') toy_world)) ''report.md''
       = Some (map of_char (''% Home Owner'' @ [CHR 0x27] @ ''s Report for 123 Main St''
                            @ [CHR 0x0A] @ ''% J. Smith'' @ [CHR 0x0A] @ ''% March 4, 2024''
                            @ [CHR 0x0A]))"
    by simp_all
  then show ?thesis by (simp add: toy_converter_fails) (simp add: toy_world_def)
qed

text \<open>
  When printing the markup fails (a caption has a character the file's encoding
  lacks, say), the run ends there: the converter is not started and \<open>report.html\<close> is
  not touched.
\<close>

lemma main_print_failure:
  assumes "get_most_recent_photos L (iterdir w) (arg_photo_path a) = Inr ps"
    and "fst (render_report_data L
           \<lparr>effective_date = today w, property_address = arg_property_address a,
            author = arg_author a, photo_list = ps\<rparr>) = Inr md"
    and "open_fails w ''report.md'' = None"
    and "print_fails w ''report.md'' md = Some (e, left)"
  shows "main L a w =
           (Some e, w\<lparr>files := (files w)(''report.md'' \<mapsto> left),
                      trace := trace w @ [Truncate ''report.md'', Write ''report.md'' left]\<rparr>)"
  using assms by (simp add: main_run[of L a w])

end
